theory Spec2Isabelle
  imports Main "HOL-Library.Word"
begin

unbundle bit_operations_syntax

section \<open>Data model of \<^verbatim>\<open>src/main.cpp\<close>\<close>

text \<open>
  \<^verbatim>\<open>enum Team { WHITE = 0, BLACK = 1 }\<close>.  A piece is one byte: the team in bit 0 and the
  piece type in the other bits.  An empty square is the byte \<^verbatim>\<open>NONE = 128\<close>, whose team bit
  reads as \<^verbatim>\<open>WHITE\<close>.
\<close>

datatype Team = WHITE | BLACK

type_synonym Piece = "8 word"
type_synonym PieceType = "8 word"
type_synonym MoveFlags = "32 word"
type_synonym GameFlags = "32 word"

abbreviation KING :: PieceType where "KING \<equiv> 2"
abbreviation QUEEN :: PieceType where "QUEEN \<equiv> 4"
abbreviation ROOK :: PieceType where "ROOK \<equiv> 8"
abbreviation BISHOP :: PieceType where "BISHOP \<equiv> 16"
abbreviation KNIGHT :: PieceType where "KNIGHT \<equiv> 32"
abbreviation PAWN :: PieceType where "PAWN \<equiv> 64"
abbreviation NONE :: PieceType where "NONE \<equiv> 128"

abbreviation Type_Mask :: MoveFlags where "Type_Mask \<equiv> 126"

definition team_code :: "Team \<Rightarrow> 8 word" where
  "team_code t = (case t of WHITE \<Rightarrow> 0 | BLACK \<Rightarrow> 1)"

definition team :: "Piece \<Rightarrow> Team" where
  "team info = (if info AND 1 = 0 then WHITE else BLACK)"

definition other_team :: "Piece \<Rightarrow> Team" where
  "other_team info = (if team info = WHITE then BLACK else WHITE)"

definition ptype :: "Piece \<Rightarrow> PieceType" where
  "ptype info = info AND 254"

abbreviation NO_ACTION :: MoveFlags where "NO_ACTION \<equiv> 0"
abbreviation ATTACK :: MoveFlags where "ATTACK \<equiv> 1"
abbreviation FIRST_MOVE :: MoveFlags where "FIRST_MOVE \<equiv> 128"
abbreviation CASTLE_LEFT_BEFORE_MOVE :: MoveFlags where "CASTLE_LEFT_BEFORE_MOVE \<equiv> 256"
abbreviation CASTLE_RIGHT_BEFORE_MOVE :: MoveFlags where "CASTLE_RIGHT_BEFORE_MOVE \<equiv> 512"
abbreviation PROMOTION :: MoveFlags where "PROMOTION \<equiv> 1024"
abbreviation DOUBLE_MOVE :: MoveFlags where "DOUBLE_MOVE \<equiv> 2048"
abbreviation EN_PASSANT :: MoveFlags where "EN_PASSANT \<equiv> 4096"

record Move =
  source :: nat
  destination :: nat
  flags :: MoveFlags

definition get_attacked_piece_type :: "Move \<Rightarrow> PieceType" where
  "get_attacked_piece_type m = ucast (flags m AND Type_Mask)"

abbreviation CAN_WHITE_CASTLE_RIGHT :: GameFlags where "CAN_WHITE_CASTLE_RIGHT \<equiv> 1"
abbreviation CAN_WHITE_CASTLE_LEFT :: GameFlags where "CAN_WHITE_CASTLE_LEFT \<equiv> 2"
abbreviation CAN_BLACK_CASTLE_RIGHT :: GameFlags where "CAN_BLACK_CASTLE_RIGHT \<equiv> 4"
abbreviation CAN_BLACK_CASTLE_LEFT :: GameFlags where "CAN_BLACK_CASTLE_LEFT \<equiv> 8"

text \<open>
  \<^verbatim>\<open>struct ChessGame\<close>.  The field \<^verbatim>\<open>flags\<close> of the game is called \<open>game_flags\<close> here, since
  \<open>flags\<close> is the field of a move.  \<^verbatim>\<open>MoveHistory\<close> is an array of 512 moves with a cursor,
  used as a stack: \<^verbatim>\<open>add\<close> writes at the cursor and increments it, \<^verbatim>\<open>pop\<close> decrements it and
  reads, \<^verbatim>\<open>peek\<close> reads below it.  No code reads at or above the cursor, so the history is the
  list of the moves below the cursor, the newest first; the cursor is its length.  \<^verbatim>\<open>add\<close> at
  cursor 512 writes past the array (undefined in C++): the theorems about applying a move
  carry the hypothesis that the cursor is below 512.
\<close>

record ChessGame =
  is_against_ai :: bool
  game_flags :: GameFlags
  current_turn :: Team
  board :: "Piece list"
  history :: "Move list"

definition cursor :: "ChessGame \<Rightarrow> nat" where
  "cursor g = length (history g)"

definition piece_at :: "ChessGame \<Rightarrow> int \<Rightarrow> int \<Rightarrow> Piece" where
  "piece_at g col row = board g ! nat (row * 8 + col)"

definition can_castle_right :: "ChessGame \<Rightarrow> bool \<Rightarrow> bool" where
  "can_castle_right g is_white =
     ((if is_white then game_flags g AND CAN_WHITE_CASTLE_RIGHT
       else game_flags g AND CAN_BLACK_CASTLE_RIGHT) \<noteq> 0)"

definition set_castle_right :: "bool \<Rightarrow> bool \<Rightarrow> ChessGame \<Rightarrow> ChessGame" where
  "set_castle_right v is_white g =
     (if is_white then
        (if v then g\<lparr>game_flags := game_flags g OR CAN_WHITE_CASTLE_RIGHT\<rparr>
         else g\<lparr>game_flags := game_flags g AND NOT CAN_WHITE_CASTLE_RIGHT\<rparr>)
      else
        (if v then g\<lparr>game_flags := game_flags g OR CAN_BLACK_CASTLE_RIGHT\<rparr>
         else g\<lparr>game_flags := game_flags g AND NOT CAN_BLACK_CASTLE_RIGHT\<rparr>))"

definition can_castle_left :: "ChessGame \<Rightarrow> bool \<Rightarrow> bool" where
  "can_castle_left g is_white =
     ((if is_white then game_flags g AND CAN_WHITE_CASTLE_LEFT
       else game_flags g AND CAN_BLACK_CASTLE_LEFT) \<noteq> 0)"

definition set_castle_left :: "bool \<Rightarrow> bool \<Rightarrow> ChessGame \<Rightarrow> ChessGame" where
  "set_castle_left v is_white g =
     (if is_white then
        (if v then g\<lparr>game_flags := game_flags g OR CAN_WHITE_CASTLE_LEFT\<rparr>
         else g\<lparr>game_flags := game_flags g AND NOT CAN_WHITE_CASTLE_LEFT\<rparr>)
      else
        (if v then g\<lparr>game_flags := game_flags g OR CAN_BLACK_CASTLE_LEFT\<rparr>
         else g\<lparr>game_flags := game_flags g AND NOT CAN_BLACK_CASTLE_LEFT\<rparr>))"

definition pieces_on_board_count :: "ChessGame \<Rightarrow> nat" where
  "pieces_on_board_count g = length (filter (\<lambda>i. ptype (board g ! i) \<noteq> NONE) [0..<64])"

section \<open>Applying and undoing a move\<close>

text \<open>
  \<^verbatim>\<open>current_turn ^ Team::BLACK\<close> flips the side to move.
\<close>

definition flip_turn :: "Team \<Rightarrow> Team" where
  "flip_turn t = (case t of WHITE \<Rightarrow> BLACK | BLACK \<Rightarrow> WHITE)"

text \<open>
  The offset of the pawn taken en passant, relative to the source square:
  \<^verbatim>\<open>absolute_value(move.source - move.destination) == 9 ? 1 : -1\<close>, negated for white.
\<close>

definition en_passant_offset :: "Move \<Rightarrow> bool \<Rightarrow> int" where
  "en_passant_offset m is_white =
     (let offset = (if \<bar>int (source m) - int (destination m)\<bar> = 9 then 1 else -1)
      in if is_white then - offset else offset)"

definition performe_move :: "ChessGame \<Rightarrow> Move \<Rightarrow> ChessGame" where
  "performe_move g m =
     (let piece = board g ! source m;
          is_white = (team piece = WHITE);
          b1 = (board g)[destination m := piece, source m := NONE];
          b2 =
            (if ptype piece = PAWN then
               (if flags m AND EN_PASSANT \<noteq> 0 then
                  b1[nat (int (source m) + en_passant_offset m is_white) := NONE]
                else if flags m AND PROMOTION \<noteq> 0 then
                  b1[destination m := QUEEN OR team_code (team piece)]
                else b1)
             else if ptype piece = KING then
               (let source_col = source m mod 8; dest_col = destination m mod 8 in
                if \<bar>int source_col - int dest_col\<bar> > 1 then
                  (let row = destination m div 8 in
                   if dest_col = 6 then
                     b1[row * 8 + 5 := b1 ! (row * 8 + 7), row * 8 + 7 := NONE]
                   else
                     b1[row * 8 + dest_col + 1 := b1 ! (row * 8), row * 8 := NONE])
                else b1)
             else b1);
          g1 = g\<lparr>current_turn := flip_turn (current_turn g),
                 history := m # history g,
                 board := b2\<rparr>
      in
        if flags m AND FIRST_MOVE \<noteq> 0 then
          (if ptype piece = KING then
             set_castle_left False is_white (set_castle_right False is_white g1)
           else if ptype piece = ROOK then
             (if source m mod 8 = 7 then set_castle_right False is_white g1
              else set_castle_left False is_white g1)
           else g1)
        else g1)"

text \<open>
  \<^verbatim>\<open>undo_last_move\<close> pops the history first; on an empty history the pop reads
  \<^verbatim>\<open>moves[-1]\<close>, which the model reports as \<open>None\<close>.  \<open>undo_move\<close> is the rest of the body,
  with the popped move.
\<close>

definition undo_move :: "Move \<Rightarrow> ChessGame \<Rightarrow> ChessGame" where
  "undo_move m g =
     (let piece = board g ! destination m;
          is_white = (team piece = WHITE);
          b1 = (board g)[source m := piece, destination m := NONE];
          b2 = (if flags m AND ATTACK \<noteq> 0 then
                  b1[destination m := get_attacked_piece_type m OR team_code (other_team piece)]
                else b1);
          b3 = (if flags m AND PROMOTION \<noteq> 0 then
                  b2[source m := PAWN OR team_code (team piece)]
                else b2);
          b4 =
            (if ptype piece = PAWN then
               (if flags m AND EN_PASSANT \<noteq> 0 then
                  b3[nat (int (source m) + en_passant_offset m is_white) :=
                       PAWN OR team_code (other_team piece)]
                else b3)
             else if ptype piece = KING then
               (let source_col = source m mod 8; dest_col = destination m mod 8 in
                if \<bar>int source_col - int dest_col\<bar> > 1 then
                  (let row = source m div 8 in
                   if dest_col = 6 then
                     b3[row * 8 + 7 := ROOK OR team_code (team piece), row * 8 + 5 := NONE]
                   else
                     b3[row * 8 := b3 ! (row * 8 + dest_col + 1), row * 8 + dest_col + 1 := NONE])
                else b3)
             else b3);
          g1 = g\<lparr>current_turn := flip_turn (current_turn g), board := b4\<rparr>
      in
        if (ptype piece = KING \<or> ptype piece = ROOK) \<and> flags m AND FIRST_MOVE \<noteq> 0 then
          (let g2 = (if flags m AND CASTLE_RIGHT_BEFORE_MOVE \<noteq> 0
                     then set_castle_right True is_white g1 else g1)
           in if flags m AND CASTLE_LEFT_BEFORE_MOVE \<noteq> 0
              then set_castle_left True is_white g2 else g2)
        else g1)"

definition undo_last_move :: "ChessGame \<Rightarrow> ChessGame option" where
  "undo_last_move g =
     (case history g of
        [] \<Rightarrow> None
      | m # rest \<Rightarrow> Some (undo_move m (g\<lparr>history := rest\<rparr>)))"

section \<open>Move generation\<close>

datatype IterationStatus = BREAK | CONTINUE

text \<open>
  The enumerators of the source hand each move to a callback, which may stop the enumeration
  by returning \<^verbatim>\<open>BREAK\<close>.  The model separates the two: an enumerator is the list of the moves
  it would hand over, in the order of the source, and \<open>visit\<close> runs a callback with its
  captured variables as a state along such a list.  \<open>visit\<close> returns whether the callback
  broke off, which is what the enumerators of the source return.
\<close>

fun visit :: "(Move \<Rightarrow> 's \<Rightarrow> IterationStatus \<times> 's) \<Rightarrow> Move list \<Rightarrow> 's \<Rightarrow> bool \<times> 's" where
  "visit callback [] s = (False, s)"
| "visit callback (m # ms) s =
     (case callback m s of
        (BREAK, s') \<Rightarrow> (True, s')
      | (CONTINUE, s') \<Rightarrow> visit callback ms s')"

text \<open>
  The macro \<^verbatim>\<open>Call_On(dest_col, dest_row, flags)\<close> builds the move of the piece at
  \<^verbatim>\<open>piece_position\<close>; \<open>Call_On\<close> is that move.  The legality test and the callback of the
  macro are applied to the list of these moves in \<open>foreach_piece_legal_move\<close> below.
\<close>

definition Call_On :: "nat \<Rightarrow> int \<Rightarrow> int \<Rightarrow> MoveFlags \<Rightarrow> Move" where
  "Call_On piece_position dest_col dest_row fl =
     \<lparr>source = piece_position, destination = nat (dest_row * 8 + dest_col), flags = fl\<rparr>"

definition Is_Occupied :: "ChessGame \<Rightarrow> int \<Rightarrow> int \<Rightarrow> bool" where
  "Is_Occupied g col row = (ptype (board g ! nat (row * 8 + col)) \<noteq> NONE)"

definition Call_On_And_Maybe_Attack :: "ChessGame \<Rightarrow> Piece \<Rightarrow> nat \<Rightarrow> int \<Rightarrow> int \<Rightarrow> Move list" where
  "Call_On_And_Maybe_Attack g piece piece_position col row =
     (if col \<ge> 0 \<and> col < 8 \<and> row \<ge> 0 \<and> row < 8 then
        (let other = piece_at g col row in
         if ptype other = NONE then [Call_On piece_position col row NO_ACTION]
         else if team other \<noteq> team piece then
           [Call_On piece_position col row (ATTACK OR ucast (ptype other))]
         else [])
      else [])"

text \<open>
  The macro \<^verbatim>\<open>Iterate_Col_And_Row(col_dir, row_dir, flags)\<close>: the loop over the squares
  \<open>(c, r)\<close> of one direction, from the square next to the piece.  The first argument bounds
  the number of iterations; every use gives 8, and \<open>Iterate_Col_And_Row_fuel\<close> below shows
  that the loop of the source never needs more.
\<close>

fun Iterate_Col_And_Row ::
  "nat \<Rightarrow> ChessGame \<Rightarrow> Piece \<Rightarrow> nat \<Rightarrow> int \<Rightarrow> int \<Rightarrow> MoveFlags \<Rightarrow> int \<Rightarrow> int \<Rightarrow> Move list" where
  "Iterate_Col_And_Row 0 g piece piece_position col_dir row_dir fl c r = []"
| "Iterate_Col_And_Row (Suc n) g piece piece_position col_dir row_dir fl c r =
     (if c < 8 \<and> r < 8 \<and> c > -1 \<and> r > -1 then
        (let other = piece_at g c r in
         if ptype other = NONE then
           Call_On piece_position c r fl
             # Iterate_Col_And_Row n g piece piece_position col_dir row_dir fl
                 (c + col_dir) (r + row_dir)
         else if team other \<noteq> team piece then
           [Call_On piece_position c r (fl OR ATTACK OR ucast (ptype other))]
         else [])
      else [])"

definition slide :: "ChessGame \<Rightarrow> nat \<Rightarrow> MoveFlags \<Rightarrow> int \<times> int \<Rightarrow> Move list" where
  "slide g piece_position fl d =
     (let piece = board g ! piece_position;
          col = int (piece_position mod 8);
          row = int (piece_position div 8)
      in Iterate_Col_And_Row 8 g piece piece_position (fst d) (snd d) fl
           (col + fst d) (row + snd d))"

subsection \<open>The cases of \<^verbatim>\<open>foreach_piece_legal_move\<close>\<close>

definition pawn_moves :: "ChessGame \<Rightarrow> nat \<Rightarrow> Move list" where
  "pawn_moves g piece_position =
     (let piece = board g ! piece_position;
          is_white = (team piece = WHITE);
          col = int (piece_position mod 8);
          row = int (piece_position div 8);
          direction = (if is_white then -1 else 1);
          double_move_row = (if is_white then 6 else 1);
          promotion_flag =
            (if row + direction = 0 \<or> row + direction = 7 then PROMOTION else NO_ACTION)
      in
        (if \<not> Is_Occupied g col (row + direction) then
           Call_On piece_position col (row + direction) promotion_flag
             # (if row = double_move_row \<and> \<not> Is_Occupied g col (row + direction * 2)
                then [Call_On piece_position col (row + direction * 2) DOUBLE_MOVE] else [])
         else [])
        @ (if col - 1 \<ge> 0 then
             (let left = piece_at g (col - 1) (row + direction) in
              if ptype left \<noteq> NONE \<and> team left \<noteq> team piece then
                [Call_On piece_position (col - 1) (row + direction)
                   (promotion_flag OR ATTACK OR ucast (ptype left))]
              else [])
           else [])
        @ (if col + 1 \<le> 7 then
             (let right = piece_at g (col + 1) (row + direction) in
              if ptype right \<noteq> NONE \<and> team right \<noteq> team piece then
                [Call_On piece_position (col + 1) (row + direction)
                   (promotion_flag OR ATTACK OR ucast (ptype right))]
              else [])
           else [])
        @ (case history g of
             [] \<Rightarrow> []
           | last_move # _ \<Rightarrow>
               (let fifth_rank = (if is_white then 3 else 4);
                    last_move_row = int (destination last_move div 8);
                    last_move_col = int (destination last_move mod 8)
                in if flags last_move AND DOUBLE_MOVE \<noteq> 0 \<and> row = fifth_rank
                      \<and> row = last_move_row \<and> \<bar>col - last_move_col\<bar> = 1
                   then [Call_On piece_position
                           (col + (int (destination last_move) - int piece_position))
                           (row + direction) EN_PASSANT]
                   else [])))"

definition first_move_flags :: "ChessGame \<Rightarrow> bool \<Rightarrow> MoveFlags" where
  "first_move_flags g is_white =
     (let f0 = NO_ACTION;
          f1 = (if can_castle_right g is_white
                then f0 OR FIRST_MOVE OR CASTLE_RIGHT_BEFORE_MOVE else f0)
      in if can_castle_left g is_white
         then f1 OR FIRST_MOVE OR CASTLE_LEFT_BEFORE_MOVE else f1)"

text \<open>The two nested loops of the king over the rows and columns next to it.\<close>

definition king_steps :: "ChessGame \<Rightarrow> nat \<Rightarrow> Move list" where
  "king_steps g piece_position =
     (let piece = board g ! piece_position;
          is_white = (team piece = WHITE);
          col = int (piece_position mod 8);
          row = int (piece_position div 8);
          fmf = first_move_flags g is_white
      in concat (map (\<lambda>i.
           if i < 0 \<or> i > 7 then []
           else concat (map (\<lambda>j.
             if j < 0 \<or> j > 7 then []
             else (let other = piece_at g j i in
                   if ptype other = NONE then [Call_On piece_position j i fmf]
                   else if team other \<noteq> team piece then
                     [Call_On piece_position j i (fmf OR ATTACK OR ucast (ptype other))]
                   else []))
             [col - 1, col, col + 1]))
           [row - 1, row, row + 1]))"

definition queen_moves :: "ChessGame \<Rightarrow> nat \<Rightarrow> Move list" where
  "queen_moves g piece_position =
     concat (map (slide g piece_position NO_ACTION)
       [(-1, -1), (1, 1), (1, -1), (-1, 1), (0, -1), (0, 1), (1, 0), (-1, 0)])"

definition bishop_moves :: "ChessGame \<Rightarrow> nat \<Rightarrow> Move list" where
  "bishop_moves g piece_position =
     concat (map (slide g piece_position NO_ACTION) [(-1, -1), (1, 1), (1, -1), (-1, 1)])"

definition knight_moves :: "ChessGame \<Rightarrow> nat \<Rightarrow> Move list" where
  "knight_moves g piece_position =
     (let piece = board g ! piece_position;
          col = int (piece_position mod 8);
          row = int (piece_position div 8)
      in concat (map (\<lambda>(dc, dr). Call_On_And_Maybe_Attack g piece piece_position (col + dc) (row + dr))
           [(1, 2), (1, -2), (-1, 2), (-1, -2), (2, 1), (2, -1), (-2, 1), (-2, -1)]))"

definition rook_first_move_flag :: "ChessGame \<Rightarrow> nat \<Rightarrow> MoveFlags" where
  "rook_first_move_flag g piece_position =
     (let piece = board g ! piece_position;
          is_white = (team piece = WHITE);
          col = int (piece_position mod 8);
          f0 = NO_ACTION;
          f1 = (if can_castle_right g is_white \<and> col = 7 then FIRST_MOVE else f0);
          f2 = (if can_castle_left g is_white \<and> col = 0 then FIRST_MOVE else f1)
      in if f2 AND FIRST_MOVE \<noteq> 0 then
           (let f3 = (if can_castle_right g is_white
                      then f2 OR CASTLE_RIGHT_BEFORE_MOVE else f2)
            in if can_castle_left g is_white then f3 OR CASTLE_LEFT_BEFORE_MOVE else f3)
         else f2)"

definition rook_moves :: "ChessGame \<Rightarrow> nat \<Rightarrow> Move list" where
  "rook_moves g piece_position =
     concat (map (slide g piece_position (rook_first_move_flag g piece_position))
       [(0, -1), (0, 1), (1, 0), (-1, 0)])"

text \<open>
  \<^verbatim>\<open>foreach_piece_legal_move\<close> with \<^verbatim>\<open>full_check = false\<close>: the \<^verbatim>\<open>switch\<close> on the type of the
  piece, without the castling block (which the source enters in full-check mode only) and
  without the legality test of \<^verbatim>\<open>Call_On\<close>.  A square whose type is none of the six has no
  case in the \<^verbatim>\<open>switch\<close>.
\<close>

definition pseudo_piece_moves :: "ChessGame \<Rightarrow> nat \<Rightarrow> Move list" where
  "pseudo_piece_moves g piece_position =
     (let t = ptype (board g ! piece_position) in
      if t = PAWN then pawn_moves g piece_position
      else if t = KING then king_steps g piece_position
      else if t = QUEEN then queen_moves g piece_position
      else if t = BISHOP then bishop_moves g piece_position
      else if t = KNIGHT then knight_moves g piece_position
      else if t = ROOK then rook_moves g piece_position
      else [])"

text \<open>\<^verbatim>\<open>foreach_team_legal_move\<close> with \<^verbatim>\<open>full_check = false\<close>.\<close>

definition pseudo_team_moves :: "ChessGame \<Rightarrow> Team \<Rightarrow> Move list" where
  "pseudo_team_moves g tm =
     concat (map (\<lambda>i. let piece = board g ! i in
                    if ptype piece \<noteq> NONE \<and> team piece = tm then pseudo_piece_moves g i else [])
       [0..<64])"

definition any_legal_destinations_for_team :: "ChessGame \<Rightarrow> Team \<Rightarrow> nat list \<Rightarrow> bool" where
  "any_legal_destinations_for_team g tm destinations_to_check =
     snd (visit (\<lambda>m result.
                   if destination m \<in> set destinations_to_check then (BREAK, True)
                   else (CONTINUE, result))
            (pseudo_team_moves g tm) False)"

text \<open>
  \<^verbatim>\<open>check_move_full_legality\<close> changes the game and changes it back; the model returns the
  game it leaves together with the answer.  The move was just pushed, so the pop of
  \<^verbatim>\<open>undo_last_move\<close> reads it back and the \<open>None\<close> case does not occur
  (\<open>undo_last_move_performe_move\<close> below).
\<close>

definition is_king_capture :: "Move \<Rightarrow> bool" where
  "is_king_capture m = (flags m AND ATTACK \<noteq> 0 \<and> get_attacked_piece_type m = KING)"

definition check_move_full_legality :: "ChessGame \<Rightarrow> Move \<Rightarrow> bool \<times> ChessGame" where
  "check_move_full_legality g m =
     (let other = other_team (board g ! source m);
          g1 = performe_move g m;
          result = snd (visit (\<lambda>mv result.
                                 if is_king_capture mv then (BREAK, False)
                                 else (CONTINUE, result))
                          (pseudo_team_moves g1 other) True)
      in (result, (case undo_last_move g1 of Some g2 \<Rightarrow> g2 | None \<Rightarrow> g1)))"

text \<open>The castling block of the king, entered in full-check mode.\<close>

definition castle_moves :: "ChessGame \<Rightarrow> nat \<Rightarrow> Move list" where
  "castle_moves g piece_position =
     (let piece = board g ! piece_position;
          is_white = (team piece = WHITE);
          row = int (piece_position div 8);
          fmf = first_move_flags g is_white
      in
        (if can_castle_right g is_white then
           (let maybe_right_rook = piece_at g 7 row in
            if ptype maybe_right_rook = ROOK \<and> team maybe_right_rook = team piece
               \<and> \<not> Is_Occupied g 5 row \<and> \<not> Is_Occupied g 6 row
               \<and> \<not> any_legal_destinations_for_team g (other_team piece)
                      [nat (row * 8 + 4), nat (row * 8 + 5), nat (row * 8 + 6)]
            then [Call_On piece_position 6 row fmf] else [])
         else [])
        @ (if can_castle_left g is_white then
             (let maybe_left_rook = piece_at g 0 row in
              if ptype maybe_left_rook = ROOK \<and> team maybe_left_rook = team piece
                 \<and> \<not> Is_Occupied g 3 row \<and> \<not> Is_Occupied g 2 row \<and> \<not> Is_Occupied g 1 row
                 \<and> \<not> any_legal_destinations_for_team g (other_team piece)
                        [nat (row * 8 + 1), nat (row * 8 + 2), nat (row * 8 + 3), nat (row * 8 + 4)]
              then [Call_On piece_position 2 row fmf, Call_On piece_position 1 row fmf] else [])
           else []))"

text \<open>
  The moves that reach the macro \<^verbatim>\<open>Call_On\<close> in \<^verbatim>\<open>foreach_piece_legal_move\<close>, in order.
\<close>

definition candidate_moves :: "ChessGame \<Rightarrow> nat \<Rightarrow> bool \<Rightarrow> Move list" where
  "candidate_moves g piece_position full_check =
     pseudo_piece_moves g piece_position
     @ (if full_check \<and> ptype (board g ! piece_position) = KING
        then castle_moves g piece_position else [])"

text \<open>
  \<^verbatim>\<open>foreach_piece_legal_move\<close>: \<^verbatim>\<open>Call_On\<close> hands a move to the callback if
  \<^verbatim>\<open>!full_check || check_move_full_legality(game, move)\<close>.  Every enumeration reads the game
  between two callbacks; the list is computed on the game as it is at the start, which is
  the game the source reads as long as the legality test and the callbacks leave the game as
  they found it (\<open>round_trip\<close> below).
\<close>

definition foreach_piece_legal_move :: "ChessGame \<Rightarrow> nat \<Rightarrow> bool \<Rightarrow> Move list" where
  "foreach_piece_legal_move g piece_position full_check =
     filter (\<lambda>m. \<not> full_check \<or> fst (check_move_full_legality g m))
       (candidate_moves g piece_position full_check)"

definition foreach_team_legal_move :: "ChessGame \<Rightarrow> Team \<Rightarrow> bool \<Rightarrow> Move list" where
  "foreach_team_legal_move g tm full_check =
     concat (map (\<lambda>i. let piece = board g ! i in
                    if ptype piece \<noteq> NONE \<and> team piece = tm
                    then foreach_piece_legal_move g i full_check else [])
       [0..<64])"

section \<open>The initial position\<close>

text \<open>
  \<^verbatim>\<open>init_game\<close>; the answer read from the terminal is the argument.  The history of a new
  game is empty (\<^verbatim>\<open>int cursor = 0\<close>).
\<close>

definition init_game :: "bool \<Rightarrow> ChessGame" where
  "init_game ai =
     \<lparr>is_against_ai = ai,
      game_flags = CAN_WHITE_CASTLE_RIGHT OR CAN_WHITE_CASTLE_LEFT
                   OR CAN_BLACK_CASTLE_RIGHT OR CAN_BLACK_CASTLE_LEFT,
      current_turn = WHITE,
      board =
        [ROOK OR 1, KNIGHT OR 1, BISHOP OR 1, QUEEN OR 1, KING OR 1, BISHOP OR 1, KNIGHT OR 1, ROOK OR 1,
         PAWN OR 1, PAWN OR 1, PAWN OR 1, PAWN OR 1, PAWN OR 1, PAWN OR 1, PAWN OR 1, PAWN OR 1,
         NONE, NONE, NONE, NONE, NONE, NONE, NONE, NONE,
         NONE, NONE, NONE, NONE, NONE, NONE, NONE, NONE,
         NONE, NONE, NONE, NONE, NONE, NONE, NONE, NONE,
         NONE, NONE, NONE, NONE, NONE, NONE, NONE, NONE,
         PAWN OR 0, PAWN OR 0, PAWN OR 0, PAWN OR 0, PAWN OR 0, PAWN OR 0, PAWN OR 0, PAWN OR 0,
         ROOK OR 0, KNIGHT OR 0, BISHOP OR 0, QUEEN OR 0, KING OR 0, BISHOP OR 0, KNIGHT OR 0, ROOK OR 0],
      history = []\<rparr>"

section \<open>Game status\<close>

datatype GameStatus = WIN | DRAW | CONTINUE_GAME

text \<open>
  \<^verbatim>\<open>get_game_status\<close>; \<open>CONTINUE_GAME\<close> is \<^verbatim>\<open>GameStatus::CONTINUE\<close>.  The two callbacks are
  run by \<open>visit\<close> with the captured flag as the state.
\<close>

definition get_game_status :: "ChessGame \<Rightarrow> GameStatus" where
  "get_game_status g =
     (let has_moves =
            snd (visit (\<lambda>m has_moves. (BREAK, True))
                   (foreach_team_legal_move g (current_turn g) True) False)
      in if has_moves then CONTINUE_GAME
         else
           (let other = (if current_turn g = WHITE then BLACK else WHITE);
                is_check =
                  snd (visit (\<lambda>m is_check.
                                if is_king_capture m then (BREAK, True)
                                else (CONTINUE, is_check))
                         (foreach_team_legal_move g other False) False)
            in if is_check then WIN else DRAW))"

section \<open>Search\<close>

text \<open>
  \<^verbatim>\<open>evaluate_board\<close>, without the counter \<^verbatim>\<open>boards_evaluated\<close> (a global used for a
  diagnostic message only).
\<close>

definition piece_value :: "bool \<Rightarrow> nat \<Rightarrow> Piece \<Rightarrow> int" where
  "piece_value is_early_stage i piece =
     (let t = ptype piece;
          v = (if t = PAWN then 1
               else if t = BISHOP then 3
               else if t = KNIGHT then 3
               else if t = ROOK then 5
               else if t = QUEEN then 9
               else if t = KING then
                 (let col = int (i mod 8); row = int (i div 8) in
                  if is_early_stage then 100 + (\<bar>col - 3\<bar> + \<bar>row - 3\<bar>) div 2
                  else 100 - (\<bar>col - 3\<bar> + \<bar>row - 3\<bar>) div 2)
               else 0)
      in if team piece = BLACK then - v else v)"

definition evaluate_board :: "ChessGame \<Rightarrow> int" where
  "evaluate_board g =
     (let is_early_stage = (pieces_on_board_count g > 24) in
      foldl (\<lambda>result i.
               let piece = board g ! i in
               if ptype piece = NONE then result
               else result + piece_value is_early_stage i piece)
        0 [0..<64])"

abbreviation INT_MIN :: int where "INT_MIN \<equiv> - 2147483648"
abbreviation INT_MAX :: int where "INT_MAX \<equiv> 2147483647"

text \<open>
  The statement \<^verbatim>\<open>if (!move.flags & MoveFlags::ATTACK) { depth -= 1; }\<close> of \<^verbatim>\<open>minimax\<close>.
  In C++ \<^verbatim>\<open>!\<close> binds tighter than \<^verbatim>\<open>&\<close>: \<^verbatim>\<open>!move.flags\<close> is 1 when the flags are 0 and 0
  otherwise, and that value is masked with \<^verbatim>\<open>ATTACK\<close>.
\<close>

definition depth_after_move :: "Move \<Rightarrow> int \<Rightarrow> int" where
  "depth_after_move move depth =
     (if (if flags move = 0 then (1 :: MoveFlags) else 0) AND ATTACK \<noteq> 0
      then depth - 1 else depth)"

text \<open>
  \<^verbatim>\<open>minimax\<close> and its two callbacks.  \<open>max_scan\<close> and \<open>min_scan\<close> are the enumerations of
  the replies with the callbacks of the maximizing and of the minimizing player; their state
  is \<^verbatim>\<open>result\<close>, \<^verbatim>\<open>alpha\<close> and \<^verbatim>\<open>beta\<close>.  The depth is an \<^verbatim>\<open>int8_t\<close>, a value from
  -128 to 127 at every call; the function only decreases it, by at most 2 from a positive
  value, so it does not wrap.  \<^verbatim>\<open>minimax\<close> undoes
  the move before it returns; the model returns the score.
\<close>

function minimax :: "ChessGame \<Rightarrow> Move \<Rightarrow> bool \<Rightarrow> int \<Rightarrow> int \<Rightarrow> int \<Rightarrow> int"
  and max_scan :: "ChessGame \<Rightarrow> int \<Rightarrow> Move list \<Rightarrow> int \<Rightarrow> int \<Rightarrow> int \<Rightarrow> int"
  and min_scan :: "ChessGame \<Rightarrow> int \<Rightarrow> Move list \<Rightarrow> int \<Rightarrow> int \<Rightarrow> int \<Rightarrow> int"
where
  "minimax g move is_max_player depth alpha beta =
     (if depth \<le> 0 then evaluate_board (performe_move g move)
      else if is_max_player then
        max_scan (performe_move g move) (depth_after_move move depth)
          (foreach_team_legal_move (performe_move g move)
             (current_turn (performe_move g move)) True)
          INT_MIN alpha beta
      else
        min_scan (performe_move g move) (depth_after_move move depth)
          (foreach_team_legal_move (performe_move g move)
             (current_turn (performe_move g move)) True)
          INT_MAX alpha beta)"
| "max_scan g depth [] result alpha beta = result"
| "max_scan g depth (m # ms) result alpha beta =
     (if max (max result (minimax g m False (depth - 1) alpha beta)) alpha \<ge> beta
      then max result (minimax g m False (depth - 1) alpha beta)
      else max_scan g depth ms
             (max result (minimax g m False (depth - 1) alpha beta))
             (max (max result (minimax g m False (depth - 1) alpha beta)) alpha) beta)"
| "min_scan g depth [] result alpha beta = result"
| "min_scan g depth (m # ms) result alpha beta =
     (if alpha \<ge> min (min result (minimax g m True (depth - 1) alpha beta)) beta
      then min result (minimax g m True (depth - 1) alpha beta)
      else min_scan g depth ms
             (min result (minimax g m True (depth - 1) alpha beta)) alpha
             (min (min result (minimax g m True (depth - 1) alpha beta)) beta))"
  by pat_completeness auto
termination
  by (relation "measures
        [\<lambda>x. case x of
           Inl (g, move, is_max_player, depth, alpha, beta) \<Rightarrow>
             (if depth \<le> 0 then 0 else 2 * nat depth + 3)
         | Inr (Inl (g, depth, ms, result, alpha, beta)) \<Rightarrow> 2 * nat depth + 2
         | Inr (Inr (g, depth, ms, result, alpha, beta)) \<Rightarrow> 2 * nat depth + 2,
         \<lambda>x. case x of
           Inl _ \<Rightarrow> 0
         | Inr (Inl (g, depth, ms, result, alpha, beta)) \<Rightarrow> length ms
         | Inr (Inr (g, depth, ms, result, alpha, beta)) \<Rightarrow> length ms]")
     (auto simp: depth_after_move_def)

text \<open>
  \<^verbatim>\<open>get_best_next_move\<close>.  \<^verbatim>\<open>is_better_predicate\<close> is \<^verbatim>\<open>greater_than\<close> when white is to move
  and \<^verbatim>\<open>less_than\<close> otherwise.  \<^verbatim>\<open>srand(time(nullptr))\<close> seeds the generator with a value
  the program does not control: the argument \<open>rnd\<close> is the sequence of the values that the
  successive calls of \<^verbatim>\<open>rand()\<close> return, and the state of the callback counts the calls made.
  The state is \<^verbatim>\<open>best_move\<close>, \<^verbatim>\<open>best_move_score\<close>, \<^verbatim>\<open>equal_moves_considerd\<close> and that count.
  \<^verbatim>\<open>rand()\<close> is called only when the scores are equal (\<^verbatim>\<open>&&\<close>), and the counter is incremented
  before the remainder is taken (\<^verbatim>\<open>rand() % ++equal_moves_considerd\<close>).  The \<^verbatim>\<open>int depth\<close> of
  \<^verbatim>\<open>get_best_next_move\<close> is handed to the \<^verbatim>\<open>int8_t depth\<close> of \<^verbatim>\<open>minimax\<close>: the call keeps its
  low 8 bits, read as a signed byte.
\<close>

definition is_better_predicate :: "Team \<Rightarrow> int \<Rightarrow> int \<Rightarrow> bool" where
  "is_better_predicate turn a b = (if turn = WHITE then a > b else a < b)"

definition best_move_callback ::
  "(nat \<Rightarrow> nat) \<Rightarrow> ChessGame \<Rightarrow> int \<Rightarrow> Move \<Rightarrow> Move \<times> int \<times> nat \<times> nat
     \<Rightarrow> IterationStatus \<times> Move \<times> int \<times> nat \<times> nat" where
  "best_move_callback rnd g depth move st =
     (case st of (best_move, best_move_score, equal_moves_considerd, calls) \<Rightarrow>
        (let move_score = minimax g move (current_turn g \<noteq> WHITE)
                            (sint (word_of_int depth :: 8 word)) INT_MIN INT_MAX in
         if is_better_predicate (current_turn g) move_score best_move_score then
           (CONTINUE, (move, move_score, 0, calls))
         else if move_score = best_move_score then
           (if rnd calls mod (equal_moves_considerd + 1) = 0
            then (CONTINUE, (move, move_score, equal_moves_considerd + 1, calls + 1))
            else (CONTINUE, (best_move, best_move_score, equal_moves_considerd + 1, calls + 1)))
         else (CONTINUE, st)))"

definition get_best_next_move :: "(nat \<Rightarrow> nat) \<Rightarrow> ChessGame \<Rightarrow> int \<Rightarrow> Move" where
  "get_best_next_move rnd g depth =
     (let best_move = \<lparr>source = 0, destination = 0, flags = NO_ACTION\<rparr>;
          best_move_score = (if current_turn g = WHITE then INT_MIN else INT_MAX)
      in fst (snd (visit (best_move_callback rnd g depth)
                     (foreach_team_legal_move g (current_turn g) True)
                     (best_move, best_move_score, 0, 0))))"

section \<open>Positions of a game\<close>

text \<open>
  The bytes that the program stores in a square: \<^verbatim>\<open>NONE\<close>, or one of the six types with a
  team bit.
\<close>

definition valid_piece :: "Piece \<Rightarrow> bool" where
  "valid_piece p \<longleftrightarrow> p \<in> set [NONE, 2, 3, 4, 5, 8, 9, 16, 17, 32, 33, 64, 65]"

text \<open>
  A board has 64 squares holding such bytes, and no pawn stands on the first or the last
  row (a pawn that gets there is replaced by a queen).
\<close>

definition board_ok :: "ChessGame \<Rightarrow> bool" where
  "board_ok g \<longleftrightarrow>
     length (board g) = 64
     \<and> list_all valid_piece (board g)
     \<and> list_all (\<lambda>i. ptype (board g ! i) = PAWN \<longrightarrow> 1 \<le> i div 8 \<and> i div 8 \<le> 6) [0..<64]"

text \<open>
  The move on top of the history is the move that led to the board: if it is a double step,
  the pawn stands on its destination (a black one on row 3, a white one on row 4) and the
  square it skipped is empty.
\<close>

definition history_ok :: "ChessGame \<Rightarrow> bool" where
  "history_ok g \<longleftrightarrow>
     (case history g of
        [] \<Rightarrow> True
      | last_move # _ \<Rightarrow>
          flags last_move AND DOUBLE_MOVE \<noteq> 0 \<longrightarrow>
            (let d = destination last_move in
             d < 64
             \<and> (d div 8 = 3 \<longrightarrow> board g ! d = PAWN OR 1 \<and> board g ! (d - 8) = NONE)
             \<and> (d div 8 = 4 \<longrightarrow> board g ! d = PAWN \<and> board g ! (d + 8) = NONE)))"

definition position_ok :: "ChessGame \<Rightarrow> bool" where
  "position_ok g \<longleftrightarrow> board_ok g \<and> history_ok g"

text \<open>
  The positions of a game: the initial position, and the positions that \<^verbatim>\<open>game_loop\<close> and
  the search reach from one of them by applying a move that the full-check enumeration
  yields for the side to move, while the history has room.
\<close>

inductive reachable :: "ChessGame \<Rightarrow> bool" where
  reachable_init: "reachable (init_game ai)"
| reachable_step:
    "reachable g \<Longrightarrow> cursor g < 512
     \<Longrightarrow> m \<in> set (foreach_team_legal_move g (current_turn g) True)
     \<Longrightarrow> reachable (performe_move g m)"

text \<open>
  A line of moves, each one yielded by the full-check enumeration for the side to move in
  the position it is applied to; the moves of a list applied in order; and \<open>n\<close> undos.
\<close>

fun legal_line :: "ChessGame \<Rightarrow> Move list \<Rightarrow> bool" where
  "legal_line g [] = True"
| "legal_line g (m # ms) =
     (cursor g < 512
      \<and> m \<in> set (foreach_team_legal_move g (current_turn g) True)
      \<and> legal_line (performe_move g m) ms)"

fun performe_moves :: "ChessGame \<Rightarrow> Move list \<Rightarrow> ChessGame" where
  "performe_moves g [] = g"
| "performe_moves g (m # ms) = performe_moves (performe_move g m) ms"

fun undo_moves :: "nat \<Rightarrow> ChessGame \<Rightarrow> ChessGame option" where
  "undo_moves 0 g = Some g"
| "undo_moves (Suc n) g =
     (case undo_last_move g of None \<Rightarrow> None | Some g' \<Rightarrow> undo_moves n g')"

text \<open>
  What \<^verbatim>\<open>performe_move\<close> and \<^verbatim>\<open>undo_last_move\<close> rely on in a move for a position: the
  squares are on the board, the capture flag and the captured type describe the
  destination square, the promotion flag is set exactly for a pawn reaching the first or
  last row, an en-passant move takes the pawn beside the source square, a king moving
  more than one column has the rook and the empty squares of a castle, the first-move flag
  carries the castling rights of the position, and a double step is a pawn leaving its home
  row over an empty square.
\<close>

definition move_ok :: "ChessGame \<Rightarrow> Move \<Rightarrow> bool" where
  "move_ok g m \<longleftrightarrow>
     (let s = source m; d = destination m; f = flags m;
          p = board g ! s; t = board g ! d;
          w = (team p = WHITE); row = s div 8
      in
        s < 64 \<and> d < 64 \<and> s \<noteq> d \<and> ptype p \<noteq> NONE
        \<and> ((f AND ATTACK \<noteq> 0) = (ptype t \<noteq> NONE))
        \<and> (ptype t \<noteq> NONE \<longrightarrow> get_attacked_piece_type m = ptype t \<and> team t \<noteq> team p)
        \<and> ((f AND PROMOTION \<noteq> 0) = (ptype p = PAWN \<and> (d div 8 = 0 \<or> d div 8 = 7)))
        \<and> (f AND EN_PASSANT \<noteq> 0 \<longrightarrow>
             ptype p = PAWN \<and> ptype t = NONE \<and> 1 \<le> d div 8 \<and> d div 8 \<le> 6
             \<and> (let q = nat (int s + en_passant_offset m w) in
                q < 64 \<and> q \<noteq> s \<and> q \<noteq> d \<and> board g ! q = PAWN OR team_code (other_team p)))
        \<and> (ptype p = KING \<and> \<bar>int (s mod 8) - int (d mod 8)\<bar> > 1 \<longrightarrow>
             ptype t = NONE \<and> d div 8 = row
             \<and> (if d mod 8 = 6 then
                  s mod 8 < 5
                  \<and> board g ! (row * 8 + 5) = NONE
                  \<and> board g ! (row * 8 + 7) = ROOK OR team_code (team p)
                else
                  1 \<le> d mod 8 \<and> d mod 8 + 1 < s mod 8
                  \<and> board g ! (row * 8 + d mod 8 + 1) = NONE))
        \<and> (f AND FIRST_MOVE \<noteq> 0 \<longrightarrow>
             (ptype p = KING \<or> ptype p = ROOK)
             \<and> (f AND CASTLE_RIGHT_BEFORE_MOVE \<noteq> 0) = can_castle_right g w
             \<and> (f AND CASTLE_LEFT_BEFORE_MOVE \<noteq> 0) = can_castle_left g w)
        \<and> (f AND DOUBLE_MOVE \<noteq> 0 \<longrightarrow>
             ptype p = PAWN \<and> ptype t = NONE \<and> f AND EN_PASSANT = 0
             \<and> (if w then row = 6 \<and> d + 16 = s \<and> board g ! (s - 8) = NONE
                 else row = 1 \<and> d = s + 16 \<and> board g ! (s + 8) = NONE)))"

text \<open>
  The moves of the sliding pieces, of the knight and of the king's steps, and the single
  step and the captures of a pawn: a move onto an empty square with the flags the
  enumeration starts from, or the capture of a piece of the other team, with the capture
  flag and the type of that piece added.
\<close>

definition plain_move :: "ChessGame \<Rightarrow> Piece \<Rightarrow> MoveFlags \<Rightarrow> Move \<Rightarrow> bool" where
  "plain_move g piece fl m \<longleftrightarrow>
     destination m < 64
     \<and> (let other = board g ! destination m in
          (ptype other = NONE \<and> flags m = fl)
          \<or> (ptype other \<noteq> NONE \<and> team other \<noteq> team piece
              \<and> flags m = fl OR ATTACK OR ucast (ptype other)))"

text \<open>The flags that an enumeration starts from have none of the bits of a capture.\<close>

definition base_flags :: "MoveFlags \<Rightarrow> bool" where
  "base_flags fl \<longleftrightarrow>
     fl AND ATTACK = 0 \<and> fl AND Type_Mask = 0 \<and> fl AND EN_PASSANT = 0 \<and> fl AND DOUBLE_MOVE = 0"

section \<open>Positions used as examples\<close>

text \<open>An empty board with the given pieces put on it.\<close>

definition place :: "(nat \<times> Piece) list \<Rightarrow> Piece list" where
  "place ps = foldl (\<lambda>b (i, p). b[i := p]) (replicate 64 NONE) ps"

text \<open>White king on 56, black king on 42, white to move.\<close>

definition two_kings :: ChessGame where
  "two_kings =
     \<lparr>is_against_ai = True, game_flags = 0, current_turn = WHITE,
      board = place [(56, KING), (42, KING OR 1)], history = []\<rparr>"

text \<open>
  White king on 17, white queen on 15, black king on 0, white to move: the queen's move
  to 10 leaves black without a move and not attacked.
\<close>

definition before_stalemate :: ChessGame where
  "before_stalemate =
     \<lparr>is_against_ai = True, game_flags = 0, current_turn = WHITE,
      board = place [(0, KING OR 1), (17, KING), (15, QUEEN)], history = []\<rparr>"

definition stalemate_move :: Move where
  "stalemate_move = \<lparr>source = 15, destination = 10, flags = NO_ACTION\<rparr>"

text \<open>The same with the queen going to 9, next to the black king and covered by the white king.\<close>

definition mate_move :: Move where
  "mate_move = \<lparr>source = 15, destination = 9, flags = NO_ACTION\<rparr>"

text \<open>
  White king on 60 and white rook on 56 with the left castling right, a black pawn on 48,
  the black king on 4, white to move.
\<close>

definition castle_left_position :: ChessGame where
  "castle_left_position =
     \<lparr>is_against_ai = True, game_flags = CAN_WHITE_CASTLE_LEFT, current_turn = WHITE,
      board = place [(4, KING OR 1), (48, PAWN OR 1), (56, ROOK), (60, KING)], history = []\<rparr>"



text \<open>
  A line of three plies from the initial position: the white pawn from 52 to 36, the black
  pawn from 11 to 27, and the white pawn takes it.
\<close>

definition opening_line :: "Move list" where
  "opening_line =
     [\<lparr>source = 52, destination = 36, flags = DOUBLE_MOVE\<rparr>,
      \<lparr>source = 11, destination = 27, flags = DOUBLE_MOVE\<rparr>,
      \<lparr>source = 36, destination = 27, flags = 65\<rparr>]"

text \<open>
  Six plies from the initial position in which the white rook of the left corner goes from
  56 to 40 and from 40 to 47, while black moves two pawns.
\<close>

definition rook_tour :: "Move list" where
  "rook_tour =
     [\<lparr>source = 48, destination = 32, flags = DOUBLE_MOVE\<rparr>,
      \<lparr>source = 8, destination = 16, flags = NO_ACTION\<rparr>,
      \<lparr>source = 56, destination = 40, flags = 896\<rparr>,
      \<lparr>source = 16, destination = 24, flags = NO_ACTION\<rparr>,
      \<lparr>source = 40, destination = 47, flags = NO_ACTION\<rparr>,
      \<lparr>source = 9, destination = 17, flags = NO_ACTION\<rparr>]"

section \<open>Bytes and bits\<close>

subsection \<open>Bytes and bits\<close>

lemma valid_pieceD:
  "valid_piece p \<Longrightarrow> p = 128 \<or> p = 2 \<or> p = 3 \<or> p = 4 \<or> p = 5 \<or> p = 8 \<or> p = 9 \<or> p = 16 \<or> p = 17
     \<or> p = 32 \<or> p = 33 \<or> p = 64 \<or> p = 65"
  by (auto simp: valid_piece_def)

lemma piece_split: "ptype p OR team_code (team p) = p"
proof -
  have *: "(254::8 word) = NOT 1" by simp
  have "p AND 1 = 0 \<or> p AND 1 = 1"
    by (simp add: and_one_eq mod_2_eq_odd)
  moreover have "(p AND NOT 1) OR (p AND 1) = p"
    by (simp flip: bit.conj_disj_distrib)
  ultimately show ?thesis
    unfolding ptype_def team_def team_code_def * by (auto split: Team.splits)
qed

lemma team_code_cases: "team_code c = 0 \<or> team_code c = 1"
  by (cases c) (simp_all add: team_code_def)

lemma other_team_neq [simp]: "other_team p \<noteq> team p" "team p \<noteq> other_team p"
  by (simp_all add: other_team_def)

lemma other_team_eq: "team t \<noteq> team p \<Longrightarrow> other_team p = team t"
  by (cases "team t"; cases "team p") (simp_all add: other_team_def)


lemma valid_ptype:
  "valid_piece p \<Longrightarrow> ptype p \<noteq> NONE \<Longrightarrow>
     ptype p = 2 \<or> ptype p = 4 \<or> ptype p = 8 \<or> ptype p = 16 \<or> ptype p = 32 \<or> ptype p = 64"
  by (auto dest!: valid_pieceD simp: ptype_def)

lemma valid_empty: "valid_piece p \<Longrightarrow> ptype p = NONE \<Longrightarrow> p = NONE"
  by (auto dest!: valid_pieceD simp: ptype_def)

subsection \<open>The parts of the game after a move\<close>

lemma performe_move_history [simp]: "history (performe_move g m) = m # history g"
  by (simp add: performe_move_def Let_def set_castle_left_def set_castle_right_def)

lemma performe_move_turn [simp]: "current_turn (performe_move g m) = flip_turn (current_turn g)"
  by (simp add: performe_move_def Let_def set_castle_left_def set_castle_right_def)

lemma performe_move_ai [simp]: "is_against_ai (performe_move g m) = is_against_ai g"
  by (simp add: performe_move_def Let_def set_castle_left_def set_castle_right_def)

lemma undo_last_move_performe_move:
  "undo_last_move (performe_move g m) = Some (undo_move m ((performe_move g m)\<lparr>history := history g\<rparr>))"
  by (simp add: undo_last_move_def)

lemma flip_turn_twice [simp]: "flip_turn (flip_turn t) = t"
  by (cases t) (simp_all add: flip_turn_def)

lemma bit_2_32: "bit (2::32 word) n \<longleftrightarrow> n = 1"
  using bit_exp_iff[where ?'a = "32 word" and m = 1 and n = n] by (auto simp: possible_bit_word)
lemma bit_4_32: "bit (4::32 word) n \<longleftrightarrow> n = 2"
  using bit_exp_iff[where ?'a = "32 word" and m = 2 and n = n] by (auto simp: possible_bit_word)
lemma bit_8_32: "bit (8::32 word) n \<longleftrightarrow> n = 3"
  using bit_exp_iff[where ?'a = "32 word" and m = 3 and n = n] by (auto simp: possible_bit_word)

lemma and_1_32: "(x::32 word) AND 1 \<noteq> 0 \<longleftrightarrow> bit x 0"
  using and_exp_eq_0_iff_not_bit[of x 0] by simp
lemma and_2_32: "(x::32 word) AND 2 \<noteq> 0 \<longleftrightarrow> bit x 1"
  using and_exp_eq_0_iff_not_bit[of x 1] by simp
lemma and_4_32: "(x::32 word) AND 4 \<noteq> 0 \<longleftrightarrow> bit x 2"
  using and_exp_eq_0_iff_not_bit[of x 2] by simp
lemma and_8_32: "(x::32 word) AND 8 \<noteq> 0 \<longleftrightarrow> bit x 3"
  using and_exp_eq_0_iff_not_bit[of x 3] by simp

lemma bit_2_int: "bit (2::int) n \<longleftrightarrow> n = 1"
  using bit_exp_iff[where ?'a = int and m = 1 and n = n] by auto
lemma bit_4_int: "bit (4::int) n \<longleftrightarrow> n = 2"
  using bit_exp_iff[where ?'a = int and m = 2 and n = n] by auto
lemma bit_8_int: "bit (8::int) n \<longleftrightarrow> n = 3"
  using bit_exp_iff[where ?'a = int and m = 3 and n = n] by auto

lemmas castle_bits = bit_2_32 bit_4_32 bit_8_32 bit_2_int bit_4_int bit_8_int
  and_1_32 and_2_32 and_4_32 and_8_32

lemma rights_round_trip_king:
  "game_flags
     ((if can_castle_left g w then set_castle_left True w else (\<lambda>x. x))
        ((if can_castle_right g w then set_castle_right True w else (\<lambda>x. x))
           (set_castle_left False w (set_castle_right False w g)))) = game_flags g"
  by (cases w; rule bit_word_eqI)
     (auto simp add: can_castle_left_def can_castle_right_def set_castle_left_def
        set_castle_right_def bit_simps castle_bits intro: ccontr)

lemma rights_round_trip_rook_right:
  "game_flags
     ((if can_castle_left g w then set_castle_left True w else (\<lambda>x. x))
        ((if can_castle_right g w then set_castle_right True w else (\<lambda>x. x))
           (set_castle_right False w g))) = game_flags g"
  by (cases w; rule bit_word_eqI)
     (auto simp add: can_castle_left_def can_castle_right_def set_castle_left_def
        set_castle_right_def bit_simps castle_bits intro: ccontr)

lemma rights_round_trip_rook_left:
  "game_flags
     ((if can_castle_left g w then set_castle_left True w else (\<lambda>x. x))
        ((if can_castle_right g w then set_castle_right True w else (\<lambda>x. x))
           (set_castle_left False w g))) = game_flags g"
  by (cases w; rule bit_word_eqI)
     (auto simp add: can_castle_left_def can_castle_right_def set_castle_left_def
        set_castle_right_def bit_simps castle_bits intro: ccontr)

section \<open>A move applied and undone\<close>

lemma board_set_castle [simp]:
  "board (set_castle_left v w g) = board g" "board (set_castle_right v w g) = board g"
  by (simp_all add: set_castle_left_def set_castle_right_def)

lemma move_okD:
  assumes "move_ok g m"
  shows "source m < 64" "destination m < 64" "source m \<noteq> destination m"
    "ptype (board g ! source m) \<noteq> NONE"
    "(flags m AND ATTACK \<noteq> 0) = (ptype (board g ! destination m) \<noteq> NONE)"
    "ptype (board g ! destination m) \<noteq> NONE \<Longrightarrow>
       get_attacked_piece_type m = ptype (board g ! destination m)
       \<and> team (board g ! destination m) \<noteq> team (board g ! source m)"
    "(flags m AND PROMOTION \<noteq> 0) =
       (ptype (board g ! source m) = PAWN \<and> (destination m div 8 = 0 \<or> destination m div 8 = 7))"
  using assms by (simp_all add: move_ok_def Let_def)

text \<open>The board after a move of a piece that is neither a pawn nor a king.\<close>

lemma board_performe_move_other:
  "ptype (board g ! source m) \<noteq> PAWN \<Longrightarrow> ptype (board g ! source m) \<noteq> KING \<Longrightarrow>
   board (performe_move g m) = (board g)[destination m := board g ! source m, source m := NONE]"
  by (simp add: performe_move_def Let_def)

lemma board_undo_move_other:
  "ptype (board g ! destination m) \<noteq> PAWN \<Longrightarrow> ptype (board g ! destination m) \<noteq> KING \<Longrightarrow>
   board (undo_move m g) =
     (let piece = board g ! destination m;
          b1 = (board g)[source m := piece, destination m := NONE];
          b2 = (if flags m AND ATTACK \<noteq> 0 then
                  b1[destination m := get_attacked_piece_type m OR team_code (other_team piece)]
                else b1)
      in if flags m AND PROMOTION \<noteq> 0 then b2[source m := PAWN OR team_code (team piece)] else b2)"
  by (simp add: undo_move_def Let_def)

lemma list_round_trip:
  "s < length B \<Longrightarrow> d < length B \<Longrightarrow> s \<noteq> d \<Longrightarrow>
   B[d := x, s := y, s := B ! s, d := z, d := B ! d] = B"
  by (simp add: list_eq_iff_nth_eq nth_list_update)

lemma list_round_trip_empty:
  "s < length B \<Longrightarrow> d < length B \<Longrightarrow> s \<noteq> d \<Longrightarrow> B ! d = z \<Longrightarrow>
   B[d := x, s := y, s := B ! s, d := z] = B"
  by (auto simp add: list_eq_iff_nth_eq nth_list_update)

lemma round_trip_board_other:
  assumes ok: "board_ok g" and mv: "move_ok g m"
    and np: "ptype (board g ! source m) \<noteq> PAWN" and nk: "ptype (board g ! source m) \<noteq> KING"
  shows "board (undo_move m (performe_move g m)) = board g"
proof -
  have len: "length (board g) = 64" using ok by (simp add: board_ok_def)
  have vd: "valid_piece (board g ! destination m)"
    using ok move_okD(2)[OF mv] by (simp add: board_ok_def list_all_length)
  note D = move_okD[OF mv]
  have b: "board (performe_move g m)
             = (board g)[destination m := board g ! source m, source m := NONE]"
    using np nk by (simp add: board_performe_move_other)
  have at: "board (performe_move g m) ! destination m = board g ! source m"
    using D(1-3) len by (simp add: b)
  have pr: "flags m AND PROMOTION = 0" using D(7) np by simp
  show ?thesis
  proof (cases "ptype (board g ! destination m) = NONE")
    case True
    with D have att: "flags m AND ATTACK = 0" by auto
    from True vd have "board g ! destination m = NONE" by (rule_tac valid_empty)
    then show ?thesis using D(1-3) np nk len att pr
      by (auto simp add: board_undo_move_other at Let_def b list_eq_iff_nth_eq nth_list_update)
  next
    case False
    with D np have att: "flags m AND ATTACK \<noteq> 0" 
      and ty: "get_attacked_piece_type m = ptype (board g ! destination m)"
      and tm: "other_team (board g ! source m) = team (board g ! destination m)" by (auto simp: other_team_eq)
    show ?thesis using D(1-3) np nk len att pr
      by (auto simp add: board_undo_move_other at Let_def b ty tm piece_split list_eq_iff_nth_eq nth_list_update)
  qed
qed

lemma move_ok_en_passantD:
  assumes "move_ok g m" "flags m AND EN_PASSANT \<noteq> 0"
  shows "ptype (board g ! source m) = PAWN" "ptype (board g ! destination m) = NONE"
    "1 \<le> destination m div 8" "destination m div 8 \<le> 6"
    "nat (int (source m) + en_passant_offset m (team (board g ! source m) = WHITE)) < 64"
    "nat (int (source m) + en_passant_offset m (team (board g ! source m) = WHITE)) \<noteq> source m"
    "nat (int (source m) + en_passant_offset m (team (board g ! source m) = WHITE)) \<noteq> destination m"
    "board g ! nat (int (source m) + en_passant_offset m (team (board g ! source m) = WHITE))
       = PAWN OR team_code (other_team (board g ! source m))"
  using assms by (simp_all add: move_ok_def Let_def)

lemma move_ok_castleD:
  assumes "move_ok g m" "ptype (board g ! source m) = KING"
    "\<bar>int (source m mod 8) - int (destination m mod 8)\<bar> > 1"
  shows "ptype (board g ! destination m) = NONE" "destination m div 8 = source m div 8"
    "destination m mod 8 = 6 \<Longrightarrow>
       source m mod 8 < 5 \<and> board g ! (source m div 8 * 8 + 5) = NONE
       \<and> board g ! (source m div 8 * 8 + 7) = ROOK OR team_code (team (board g ! source m))"
    "destination m mod 8 \<noteq> 6 \<Longrightarrow>
       1 \<le> destination m mod 8 \<and> destination m mod 8 + 1 < source m mod 8
       \<and> board g ! (source m div 8 * 8 + destination m mod 8 + 1) = NONE"
  using assms by (simp_all add: move_ok_def Let_def)

lemma board_performe_move_pawn:
  "ptype (board g ! source m) = PAWN \<Longrightarrow>
   board (performe_move g m) =
     (let piece = board g ! source m;
          b1 = (board g)[destination m := piece, source m := NONE]
      in if flags m AND EN_PASSANT \<noteq> 0 then
           b1[nat (int (source m) + en_passant_offset m (team piece = WHITE)) := NONE]
         else if flags m AND PROMOTION \<noteq> 0 then
           b1[destination m := QUEEN OR team_code (team piece)]
         else b1)"
  by (simp add: performe_move_def Let_def)

lemma board_undo_move_pawn:
  "ptype (board g ! destination m) = PAWN \<Longrightarrow>
   board (undo_move m g) =
     (let piece = board g ! destination m;
          b1 = (board g)[source m := piece, destination m := NONE];
          b2 = (if flags m AND ATTACK \<noteq> 0 then
                  b1[destination m := get_attacked_piece_type m OR team_code (other_team piece)]
                else b1);
          b3 = (if flags m AND PROMOTION \<noteq> 0 then b2[source m := PAWN OR team_code (team piece)]
                else b2)
      in if flags m AND EN_PASSANT \<noteq> 0 then
           b3[nat (int (source m) + en_passant_offset m (team piece = WHITE)) :=
                PAWN OR team_code (other_team piece)]
         else b3)"
  by (simp add: undo_move_def Let_def)

lemma board_performe_move_king_step:
  "ptype (board g ! source m) = KING \<Longrightarrow>
   \<not> \<bar>int (source m mod 8) - int (destination m mod 8)\<bar> > 1 \<Longrightarrow>
   board (performe_move g m) = (board g)[destination m := board g ! source m, source m := NONE]"
  by (simp add: performe_move_def Let_def; arith)

lemma board_performe_move_castle_right:
  "ptype (board g ! source m) = KING \<Longrightarrow>
   \<bar>int (source m mod 8) - int (destination m mod 8)\<bar> > 1 \<Longrightarrow>
   destination m mod 8 = 6 \<Longrightarrow>
   board (performe_move g m) =
     (let b1 = (board g)[destination m := board g ! source m, source m := NONE];
          row = destination m div 8
      in b1[row * 8 + 5 := b1 ! (row * 8 + 7), row * 8 + 7 := NONE])"
  by (simp add: performe_move_def Let_def; arith)

lemma board_performe_move_castle_left:
  "ptype (board g ! source m) = KING \<Longrightarrow>
   \<bar>int (source m mod 8) - int (destination m mod 8)\<bar> > 1 \<Longrightarrow>
   destination m mod 8 \<noteq> 6 \<Longrightarrow>
   board (performe_move g m) =
     (let b1 = (board g)[destination m := board g ! source m, source m := NONE];
          row = destination m div 8
      in b1[row * 8 + destination m mod 8 + 1 := b1 ! (row * 8), row * 8 := NONE])"
  by (simp add: performe_move_def Let_def; arith)

lemma board_undo_move_king_step:
  "ptype (board g ! destination m) = KING \<Longrightarrow>
   \<not> \<bar>int (source m mod 8) - int (destination m mod 8)\<bar> > 1 \<Longrightarrow>
   flags m AND PROMOTION = 0 \<Longrightarrow>
   board (undo_move m g) =
     (let piece = board g ! destination m;
          b1 = (board g)[source m := piece, destination m := NONE]
      in if flags m AND ATTACK \<noteq> 0 then
           b1[destination m := get_attacked_piece_type m OR team_code (other_team piece)]
         else b1)"
  by (simp add: undo_move_def Let_def; arith)

lemma board_undo_move_castle_right:
  "ptype (board g ! destination m) = KING \<Longrightarrow>
   \<bar>int (source m mod 8) - int (destination m mod 8)\<bar> > 1 \<Longrightarrow>
   destination m mod 8 = 6 \<Longrightarrow>
   flags m AND PROMOTION = 0 \<Longrightarrow> flags m AND ATTACK = 0 \<Longrightarrow>
   board (undo_move m g) =
     (let piece = board g ! destination m;
          b1 = (board g)[source m := piece, destination m := NONE];
          row = source m div 8
      in b1[row * 8 + 7 := ROOK OR team_code (team piece), row * 8 + 5 := NONE])"
  by (simp add: undo_move_def Let_def; arith)

lemma board_undo_move_castle_left:
  "ptype (board g ! destination m) = KING \<Longrightarrow>
   \<bar>int (source m mod 8) - int (destination m mod 8)\<bar> > 1 \<Longrightarrow>
   destination m mod 8 \<noteq> 6 \<Longrightarrow>
   flags m AND PROMOTION = 0 \<Longrightarrow> flags m AND ATTACK = 0 \<Longrightarrow>
   board (undo_move m g) =
     (let piece = board g ! destination m;
          b1 = (board g)[source m := piece, destination m := NONE];
          row = source m div 8
      in b1[row * 8 := b1 ! (row * 8 + destination m mod 8 + 1),
            row * 8 + destination m mod 8 + 1 := NONE])"
  by (simp add: undo_move_def Let_def; arith)

lemma team_queen [simp]: "team (QUEEN OR team_code c) = c" "ptype (QUEEN OR team_code c) = QUEEN"
  by (cases c; simp add: team_def ptype_def team_code_def)+

lemma other_team_cong: "team a = team b \<Longrightarrow> other_team a = other_team b"
  by (simp add: other_team_def)

lemma board_okD:
  assumes "board_ok g"
  shows "length (board g) = 64" "i < 64 \<Longrightarrow> valid_piece (board g ! i)"
    "i < 64 \<Longrightarrow> ptype (board g ! i) = PAWN \<Longrightarrow> 1 \<le> i div 8 \<and> i div 8 \<le> 6"
  using assms by (auto simp: board_ok_def list_all_length list_all_iff)

lemma round_trip_board_pawn:
  assumes ok: "board_ok g" and mv: "move_ok g m"
    and pw: "ptype (board g ! source m) = PAWN"
  shows "board (undo_move m (performe_move g m)) = board g"
proof -
  note len = board_okD(1)[OF ok]
  note D = move_okD[OF mv]
  have vd: "valid_piece (board g ! destination m)" using ok D(2) by (rule board_okD(2))
  have pp: "PAWN OR team_code (team (board g ! source m)) = board g ! source m"
    using piece_split[of "board g ! source m"] pw by simp
  show ?thesis
  proof (cases "flags m AND EN_PASSANT \<noteq> 0")
    case True
    note E = move_ok_en_passantD[OF mv True]
    have att: "flags m AND ATTACK = 0" using D(5) E(2) by simp
    have pr: "flags m AND PROMOTION = 0" using D(7) E(3,4) by auto
    have em: "board g ! destination m = NONE" using vd E(2) by (rule valid_empty)
    define q where "q = nat (int (source m) + en_passant_offset m (team (board g ! source m) = WHITE))"
    have b: "board (performe_move g m)
              = (board g)[destination m := board g ! source m, source m := NONE, q := NONE]"
      using pw True by (simp add: board_performe_move_pawn Let_def q_def)
    have at: "board (performe_move g m) ! destination m = board g ! source m"
      using D(1-3) E(5-7) len by (simp add: b q_def)
    have "board (undo_move m (performe_move g m))
            = (board g)[destination m := board g ! source m, source m := NONE, q := NONE,
                 source m := board g ! source m, destination m := NONE,
                 q := PAWN OR team_code (other_team (board g ! source m))]"
      using pw True att pr by (simp add: board_undo_move_pawn at Let_def q_def[symmetric]) (simp add: b)
    also have "\<dots> = board g"
      using D(1-3) E(5-8) len em
      by (auto simp add: list_eq_iff_nth_eq nth_list_update q_def[symmetric])
    finally show ?thesis .
  next
    case False
    then have ep: "flags m AND EN_PASSANT = 0" by simp
    show ?thesis
    proof (cases "flags m AND PROMOTION \<noteq> 0")
      case True
      have b: "board (performe_move g m)
              = (board g)[destination m := board g ! source m, source m := NONE,
                   destination m := QUEEN OR team_code (team (board g ! source m))]"
        using pw True ep by (simp add: board_performe_move_pawn Let_def)
      have at: "board (performe_move g m) ! destination m
                  = QUEEN OR team_code (team (board g ! source m))"
        using D(1-3) len by (simp add: b)
      have ot: "other_team (QUEEN OR team_code (team (board g ! source m))) = other_team (board g ! source m)"
        by (rule other_team_cong) simp
      have u: "board (undo_move m (performe_move g m))
            = (let b1 = (board g)[destination m := board g ! source m, source m := NONE,
                   destination m := QUEEN OR team_code (team (board g ! source m)),
                   source m := QUEEN OR team_code (team (board g ! source m)), destination m := NONE];
                   b2 = (if flags m AND ATTACK \<noteq> 0 then
                     b1[destination m := get_attacked_piece_type m OR team_code (other_team (board g ! source m))]
                     else b1)
               in b2[source m := board g ! source m])"
        using True by (simp add: board_undo_move_other at Let_def ot pp) (simp add: b)
      show ?thesis
      proof (cases "ptype (board g ! destination m) = NONE")
        case True
        with D have att: "flags m AND ATTACK = 0" by auto
        from True vd have "board g ! destination m = NONE" by (rule_tac valid_empty)
        then show ?thesis using D(1-3) len att
          by (auto simp add: u Let_def list_eq_iff_nth_eq nth_list_update)
      next
        case False
        with D have att: "flags m AND ATTACK \<noteq> 0"
          and ty: "get_attacked_piece_type m = ptype (board g ! destination m)"
          and tm: "other_team (board g ! source m) = team (board g ! destination m)"
          by (auto simp: other_team_eq)
        show ?thesis using D(1-3) len att
          by (auto simp add: u Let_def ty tm piece_split list_eq_iff_nth_eq nth_list_update)
      qed
    next
      case False
      then have pr: "flags m AND PROMOTION = 0" by simp
      have b: "board (performe_move g m)
              = (board g)[destination m := board g ! source m, source m := NONE]"
        using pw pr ep by (simp add: board_performe_move_pawn Let_def)
      have at: "board (performe_move g m) ! destination m = board g ! source m"
        using D(1-3) len by (simp add: b)
      show ?thesis
      proof (cases "ptype (board g ! destination m) = NONE")
        case True
        with D have att: "flags m AND ATTACK = 0" by auto
        from True vd have "board g ! destination m = NONE" by (rule_tac valid_empty)
        then show ?thesis using D(1-3) pw len att pr ep
          by (auto simp add: board_undo_move_pawn at Let_def b list_eq_iff_nth_eq nth_list_update)
      next
        case False
        with D have att: "flags m AND ATTACK \<noteq> 0"
          and ty: "get_attacked_piece_type m = ptype (board g ! destination m)"
          and tm: "other_team (board g ! source m) = team (board g ! destination m)"
          by (auto simp: other_team_eq)
        show ?thesis using D(1-3) pw len att pr ep
          by (auto simp add: board_undo_move_pawn at Let_def b ty tm piece_split
              list_eq_iff_nth_eq nth_list_update)
      qed
    qed
  qed
qed

lemma div_mod_8_eq: "(n::nat) div 8 = r \<Longrightarrow> n mod 8 = c \<Longrightarrow> n = r * 8 + c"
  using div_mult_mod_eq[of n 8] by simp

lemma round_trip_board_king:
  assumes ok: "board_ok g" and mv: "move_ok g m"
    and kg: "ptype (board g ! source m) = KING"
  shows "board (undo_move m (performe_move g m)) = board g"
proof -
  note len = board_okD(1)[OF ok]
  note D = move_okD[OF mv]
  have vd: "valid_piece (board g ! destination m)" using ok D(2) by (rule board_okD(2))
  have pr: "flags m AND PROMOTION = 0" using D(7) kg by simp
  show ?thesis
  proof (cases "\<bar>int (source m mod 8) - int (destination m mod 8)\<bar> > 1")
    case False
    have b: "board (performe_move g m)
              = (board g)[destination m := board g ! source m, source m := NONE]"
      using kg False by (rule board_performe_move_king_step)
    have at: "board (performe_move g m) ! destination m = board g ! source m"
      using D(1-3) len by (simp add: b)
    have u: "board (undo_move m (performe_move g m)) =
       (let b1 = (board g)[destination m := board g ! source m, source m := NONE,
                    source m := board g ! source m, destination m := NONE]
        in if flags m AND ATTACK \<noteq> 0 then
             b1[destination m := get_attacked_piece_type m OR team_code (other_team (board g ! source m))]
           else b1)"
      using kg False pr
      by (simp add: board_undo_move_king_step at Let_def) (simp add: b)
    show ?thesis
    proof (cases "ptype (board g ! destination m) = NONE")
      case True
      with D have att: "flags m AND ATTACK = 0" by auto
      from True vd have "board g ! destination m = NONE" by (rule_tac valid_empty)
      then show ?thesis using D(1-3) len att
        by (auto simp add: u Let_def list_eq_iff_nth_eq nth_list_update)
    next
      case False
      with D have att: "flags m AND ATTACK \<noteq> 0"
        and ty: "get_attacked_piece_type m = ptype (board g ! destination m)"
        and tm: "other_team (board g ! source m) = team (board g ! destination m)"
        by (auto simp: other_team_eq)
      show ?thesis using D(1-3) len att
        by (auto simp add: u Let_def ty tm piece_split list_eq_iff_nth_eq nth_list_update)
    qed
  next
    case True
    note C = move_ok_castleD[OF mv kg True]
    have att: "flags m AND ATTACK = 0" using D(5) C(1) by simp
    have em: "board g ! destination m = NONE" using vd C(1) by (rule valid_empty)
    define r where "r = source m div 8"
    define sc where "sc = source m mod 8"
    have s: "source m = r * 8 + sc" and sc: "sc < 8" by (auto simp: r_def sc_def)
    have r: "r < 8" using D(1) by (simp add: r_def)
    show ?thesis
    proof (cases "destination m mod 8 = 6")
      case six: True
      have d: "destination m = r * 8 + 6" using div_mod_8_eq[OF C(2) six] by (simp add: r_def)
      from C(3)[OF six] have sc5: "sc < 5" and e5: "board g ! (r * 8 + 5) = NONE"
        and rk: "board g ! (r * 8 + 7) = ROOK OR team_code (team (board g ! (r * 8 + sc)))"
        by (simp_all add: r_def sc_def)
      have b: "board (performe_move g m)
              = (board g)[r * 8 + 6 := board g ! (r * 8 + sc), r * 8 + sc := NONE,
                          r * 8 + 5 := ROOK OR team_code (team (board g ! (r * 8 + sc))), r * 8 + 7 := NONE]"
        using board_performe_move_castle_right[OF kg True six] sc5 r len
        by (simp add: Let_def C(2) r_def[symmetric]) (simp add: s d rk)
      have at: "board (performe_move g m) ! destination m = board g ! source m"
        using sc5 r len by (simp add: b s d)
      have kg': "ptype (board (performe_move g m) ! destination m) = KING" using at kg by simp
      have "board (undo_move m (performe_move g m)) =
              (board g)[r * 8 + 6 := board g ! (r * 8 + sc), r * 8 + sc := NONE,
                          r * 8 + 5 := ROOK OR team_code (team (board g ! (r * 8 + sc))), r * 8 + 7 := NONE,
                          r * 8 + sc := board g ! (r * 8 + sc), r * 8 + 6 := NONE,
                          r * 8 + 7 := ROOK OR team_code (team (board g ! (r * 8 + sc))), r * 8 + 5 := NONE]"
        using board_undo_move_castle_right[OF kg' True six pr att]
        by (simp add: Let_def at r_def[symmetric]) (simp add: b s d)
      also have "\<dots> = board g"
        using sc5 r len e5 rk em
        by (auto simp add: list_eq_iff_nth_eq nth_list_update s d)
      finally show ?thesis .
    next
      case nsix: False
      define dc where "dc = destination m mod 8"
      have d: "destination m = r * 8 + dc" using div_mod_8_eq[OF C(2) refl] by (simp add: r_def dc_def)
      from C(4)[OF nsix] have dc1: "1 \<le> dc" and dcs: "dc + 1 < sc"
        and e: "board g ! (r * 8 + dc + 1) = NONE"
        by (simp_all add: r_def sc_def dc_def)
      have b: "board (performe_move g m)
              = (board g)[r * 8 + dc := board g ! (r * 8 + sc), r * 8 + sc := NONE,
                          r * 8 + dc + 1 := board g ! (r * 8), r * 8 := NONE]"
        using board_performe_move_castle_left[OF kg True nsix] sc dc1 dcs r len
        by (simp add: Let_def C(2) r_def[symmetric] dc_def[symmetric]) (simp add: s d)
      have at: "board (performe_move g m) ! destination m = board g ! source m"
        using sc dc1 dcs r len by (simp add: b s d)
      have kg': "ptype (board (performe_move g m) ! destination m) = KING" using at kg by simp
      have "board (undo_move m (performe_move g m)) =
              (board g)[r * 8 + dc := board g ! (r * 8 + sc), r * 8 + sc := NONE,
                          r * 8 + dc + 1 := board g ! (r * 8), r * 8 := NONE,
                          r * 8 + sc := board g ! (r * 8 + sc), r * 8 + dc := NONE,
                          r * 8 := board g ! (r * 8), r * 8 + dc + 1 := NONE]"
        using board_undo_move_castle_left[OF kg' True nsix pr att] sc dc1 dcs r len
        by (simp add: Let_def at r_def[symmetric] dc_def[symmetric]) (simp add: b s d)
      also have "\<dots> = board g"
        using sc dc1 dcs r len e em
        by (auto simp add: list_eq_iff_nth_eq nth_list_update s d)
      finally show ?thesis .
    qed
  qed
qed

lemma round_trip_board:
  assumes "board_ok g" "move_ok g m"
  shows "board (undo_move m (performe_move g m)) = board g"
  using assms round_trip_board_pawn round_trip_board_king round_trip_board_other by blast

lemma game_flags_performe_move:
  "game_flags (performe_move g m) =
     (let piece = board g ! source m; w = (team piece = WHITE) in
      if flags m AND FIRST_MOVE \<noteq> 0 then
        (if ptype piece = KING then
           game_flags (set_castle_left False w (set_castle_right False w g))
         else if ptype piece = ROOK then
           (if source m mod 8 = 7 then game_flags (set_castle_right False w g)
            else game_flags (set_castle_left False w g))
         else game_flags g)
      else game_flags g)"
  by (simp add: performe_move_def Let_def set_castle_left_def set_castle_right_def)

lemma game_flags_undo_move:
  "game_flags (undo_move m g) =
     (let piece = board g ! destination m; w = (team piece = WHITE) in
      if (ptype piece = KING \<or> ptype piece = ROOK) \<and> flags m AND FIRST_MOVE \<noteq> 0 then
        game_flags
          ((if flags m AND CASTLE_LEFT_BEFORE_MOVE \<noteq> 0 then set_castle_left True w else (\<lambda>x. x))
             ((if flags m AND CASTLE_RIGHT_BEFORE_MOVE \<noteq> 0 then set_castle_right True w else (\<lambda>x. x)) g))
      else game_flags g)"
  by (simp add: undo_move_def Let_def set_castle_left_def set_castle_right_def)

text \<open>The castling rights after a change depend on the rights before it only.\<close>

lemma restore_cong:
  "game_flags g = game_flags g' \<Longrightarrow>
   game_flags ((if a then set_castle_left True w else (\<lambda>x. x))
                 ((if b then set_castle_right True w else (\<lambda>x. x)) g))
   = game_flags ((if a then set_castle_left True w else (\<lambda>x. x))
                 ((if b then set_castle_right True w else (\<lambda>x. x)) g'))"
  by (simp add: set_castle_left_def set_castle_right_def)

lemma piece_at_destination:
  assumes ok: "board_ok g" and mv: "move_ok g m"
  shows "board (performe_move g m) ! destination m =
           (if flags m AND PROMOTION \<noteq> 0 then QUEEN OR team_code (team (board g ! source m))
            else board g ! source m)"
proof -
  note len = board_okD(1)[OF ok]
  note D = move_okD[OF mv]
  let ?p = "board g ! source m"
  consider (pawn) "ptype ?p = PAWN" | (king) "ptype ?p = KING"
    | (other) "ptype ?p \<noteq> PAWN" "ptype ?p \<noteq> KING" by blast
  then show ?thesis
  proof cases
    case pawn
    show ?thesis
    proof (cases "flags m AND EN_PASSANT \<noteq> 0")
      case True
      note E = move_ok_en_passantD[OF mv True]
      have pr: "flags m AND PROMOTION = 0" using D(7) E(3,4) by auto
      show ?thesis using pawn True pr D(1-3) E(5-7) len
        by (simp add: board_performe_move_pawn Let_def)
    next
      case False
      then show ?thesis using pawn D(1-3) len
        by (simp add: board_performe_move_pawn Let_def)
    qed
  next
    case king
    have pr: "flags m AND PROMOTION = 0" using D(7) king by simp
    show ?thesis
    proof (cases "\<bar>int (source m mod 8) - int (destination m mod 8)\<bar> > 1")
      case False
      show ?thesis using D(1-3) len pr
        by (simp add: board_performe_move_king_step[OF king False])
    next
      case True
      note C = move_ok_castleD[OF mv king True]
      define r where "r = source m div 8"
      define sc where "sc = source m mod 8"
      have s: "source m = r * 8 + sc" and sc: "sc < 8" by (auto simp: r_def sc_def)
      have r: "r < 8" using D(1) by (simp add: r_def)
      show ?thesis
      proof (cases "destination m mod 8 = 6")
        case six: True
        have d: "destination m = r * 8 + 6"
          using div_mod_8_eq[OF C(2) six] by (simp add: r_def)
        from C(3)[OF six] have sc5: "sc < 5" by (simp add: sc_def)
        show ?thesis
          using board_performe_move_castle_right[OF king True six] sc5 r len pr
          by (simp add: Let_def C(2) r_def[symmetric]) (simp add: s d)
      next
        case nsix: False
        define dc where "dc = destination m mod 8"
        have d: "destination m = r * 8 + dc"
          using div_mod_8_eq[OF C(2) refl] by (simp add: r_def dc_def)
        from C(4)[OF nsix] have dc1: "1 \<le> dc" and dcs: "dc + 1 < sc"
          by (simp_all add: sc_def dc_def)
        show ?thesis
          using board_performe_move_castle_left[OF king True nsix] sc dc1 dcs r len pr
          by (simp add: Let_def C(2) r_def[symmetric] dc_def[symmetric]) (simp add: s d)
      qed
    qed
  next
    case other
    have pr: "flags m AND PROMOTION = 0" using D(7) other by simp
    show ?thesis using D(1-3) len pr
      by (simp add: board_performe_move_other[OF other])
  qed
qed

lemma move_ok_first_moveD:
  assumes "move_ok g m" "flags m AND FIRST_MOVE \<noteq> 0"
  shows "ptype (board g ! source m) = KING \<or> ptype (board g ! source m) = ROOK"
    "(flags m AND CASTLE_RIGHT_BEFORE_MOVE \<noteq> 0) = can_castle_right g (team (board g ! source m) = WHITE)"
    "(flags m AND CASTLE_LEFT_BEFORE_MOVE \<noteq> 0) = can_castle_left g (team (board g ! source m) = WHITE)"
  using assms by (simp_all add: move_ok_def Let_def)

lemma can_castle_cong:
  "game_flags g = game_flags g' \<Longrightarrow> can_castle_right g w = can_castle_right g' w"
  "game_flags g = game_flags g' \<Longrightarrow> can_castle_left g w = can_castle_left g' w"
  by (simp_all add: can_castle_right_def can_castle_left_def)

lemma round_trip_flags:
  assumes ok: "board_ok g" and mv: "move_ok g m"
  shows "game_flags (undo_move m (performe_move g m)) = game_flags g"
proof (cases "flags m AND FIRST_MOVE \<noteq> 0")
  case False
  then show ?thesis
    by (simp add: game_flags_undo_move game_flags_performe_move Let_def)
next
  case True
  note F = move_ok_first_moveD[OF mv True]
  note D = move_okD[OF mv]
  let ?p = "board g ! source m"
  let ?w = "team ?p = WHITE"
  have pr: "flags m AND PROMOTION = 0" using D(7) F(1) by auto
  have at: "board (performe_move g m) ! destination m = ?p"
    using piece_at_destination[OF ok mv] pr by simp
  have u: "game_flags (undo_move m (performe_move g m)) =
          game_flags
          ((if can_castle_left g ?w then set_castle_left True ?w else (\<lambda>x. x))
             ((if can_castle_right g ?w then set_castle_right True ?w else (\<lambda>x. x))
                (performe_move g m)))"
    using True F by (simp add: game_flags_undo_move at Let_def)
  from F(1) show ?thesis
  proof
    assume kg: "ptype ?p = KING"
    have "game_flags (performe_move g m)
            = game_flags (set_castle_left False ?w (set_castle_right False ?w g))"
      using True kg by (simp add: game_flags_performe_move Let_def)
    from restore_cong[OF this] show ?thesis
      by (simp add: u rights_round_trip_king)
  next
    assume rk: "ptype ?p = ROOK"
    show ?thesis
    proof (cases "source m mod 8 = 7")
      case True
      have "game_flags (performe_move g m) = game_flags (set_castle_right False ?w g)"
        using \<open>flags m AND FIRST_MOVE \<noteq> 0\<close> rk True by (simp add: game_flags_performe_move Let_def)
      from restore_cong[OF this] show ?thesis
        by (simp add: u rights_round_trip_rook_right)
    next
      case False
      have "game_flags (performe_move g m) = game_flags (set_castle_left False ?w g)"
        using \<open>flags m AND FIRST_MOVE \<noteq> 0\<close> rk False by (simp add: game_flags_performe_move Let_def)
      from restore_cong[OF this] show ?thesis
        by (simp add: u rights_round_trip_rook_left)
    qed
  qed
qed

lemma undo_move_parts [simp]:
  "current_turn (undo_move m g) = flip_turn (current_turn g)"
  "is_against_ai (undo_move m g) = is_against_ai g"
  "history (undo_move m g) = history g"
  by (simp_all add: undo_move_def Let_def set_castle_left_def set_castle_right_def
      if_distrib[where f = current_turn] if_distrib[where f = is_against_ai]
      if_distrib[where f = history] split del: if_split cong: if_cong)

lemma board_undo_move_cong:
  "board G = board G' \<Longrightarrow> board (undo_move m G) = board (undo_move m G')"
  by (simp add: undo_move_def Let_def if_distrib[where f = board] split del: if_split cong: if_cong)

lemma game_flags_undo_move_cong:
  "board G = board G' \<Longrightarrow> game_flags G = game_flags G' \<Longrightarrow>
   game_flags (undo_move m G) = game_flags (undo_move m G')"
  by (simp add: game_flags_undo_move Let_def set_castle_left_def set_castle_right_def)

text \<open>Undoing a move that was just applied gives the position back.\<close>

lemma round_trip:
  assumes "board_ok g" "move_ok g m"
  shows "undo_last_move (performe_move g m) = Some g"
proof -
  let ?G = "(performe_move g m)\<lparr>history := history g\<rparr>"
  have b: "board (undo_move m ?G) = board g"
    using board_undo_move_cong[of ?G "performe_move g m" m] round_trip_board[OF assms] by simp
  have f: "game_flags (undo_move m ?G) = game_flags g"
    using game_flags_undo_move_cong[of ?G "performe_move g m" m] round_trip_flags[OF assms]
    by simp
  have "undo_move m ?G = g"
    by (rule ChessGame.equality) (simp_all add: b f)
  then show ?thesis
    by (simp add: undo_last_move_performe_move)
qed

section \<open>The moves of the enumerations\<close>


text \<open>
  The loop of a direction leaves the board after at most 8 steps: more fuel than the
  distance to the edge changes nothing.
\<close>

lemma Iterate_Col_And_Row_col_fuel:
  "cd = 1 \<or> cd = - 1 \<Longrightarrow> (if cd = 1 then 8 - c else c + 1) \<le> int n
   \<Longrightarrow> (if cd = 1 then 8 - c else c + 1) \<le> int m
   \<Longrightarrow> Iterate_Col_And_Row n g piece pos cd rd fl c r
       = Iterate_Col_And_Row m g piece pos cd rd fl c r"
proof (induction n arbitrary: m c r)
  case 0
  then show ?case by (cases m) auto
next
  case (Suc n)
  show ?case
  proof (cases m)
    case 0
    with Suc.prems show ?thesis by auto
  next
    case (Suc k)
    have "Iterate_Col_And_Row n g piece pos cd rd fl (c + cd) (r + rd)
          = Iterate_Col_And_Row k g piece pos cd rd fl (c + cd) (r + rd)"
      using Suc.prems Suc by (intro Suc.IH) auto
    then show ?thesis by (simp add: Suc Let_def)
  qed
qed

lemma Iterate_Col_And_Row_row_fuel:
  "rd = 1 \<or> rd = - 1 \<Longrightarrow> (if rd = 1 then 8 - r else r + 1) \<le> int n
   \<Longrightarrow> (if rd = 1 then 8 - r else r + 1) \<le> int m
   \<Longrightarrow> Iterate_Col_And_Row n g piece pos cd rd fl c r
       = Iterate_Col_And_Row m g piece pos cd rd fl c r"
proof (induction n arbitrary: m c r)
  case 0
  then show ?case by (cases m) auto
next
  case (Suc n)
  show ?case
  proof (cases m)
    case 0
    with Suc.prems show ?thesis by auto
  next
    case (Suc k)
    have "Iterate_Col_And_Row n g piece pos cd rd fl (c + cd) (r + rd)
          = Iterate_Col_And_Row k g piece pos cd rd fl (c + cd) (r + rd)"
      using Suc.prems Suc by (intro Suc.IH) auto
    then show ?thesis by (simp add: Suc Let_def)
  qed
qed

lemma Iterate_Col_And_Row_fuel:
  assumes "piece_position < 64" and "8 \<le> n"
    and "col_dir = 1 \<or> col_dir = - 1 \<or> row_dir = 1 \<or> row_dir = - 1"
  shows "Iterate_Col_And_Row n g piece piece_position col_dir row_dir fl
           (int (piece_position mod 8) + col_dir) (int (piece_position div 8) + row_dir)
         = Iterate_Col_And_Row 8 g piece piece_position col_dir row_dir fl
           (int (piece_position mod 8) + col_dir) (int (piece_position div 8) + row_dir)"
proof -
  have c: "int (piece_position mod 8) < 8" by simp
  have r: "int (piece_position div 8) < 8" using assms(1) by simp
  show ?thesis
  proof (cases "col_dir = 1 \<or> col_dir = - 1")
    case True
    then show ?thesis using c assms(2) by (intro Iterate_Col_And_Row_col_fuel) auto
  next
    case False
    with assms(3) have "row_dir = 1 \<or> row_dir = - 1" by simp
    then show ?thesis using r assms(2) by (intro Iterate_Col_And_Row_row_fuel) auto
  qed
qed

lemma capture_flag_bits:
  fixes base :: MoveFlags and T :: PieceType
  assumes "base_flags base"
    and "T = 2 \<or> T = 4 \<or> T = 8 \<or> T = 16 \<or> T = 32 \<or> T = 64"
  shows "(base OR ATTACK OR ucast T) AND ATTACK \<noteq> 0"
    "ucast ((base OR ATTACK OR ucast T) AND Type_Mask) = T"
    "(base OR ATTACK OR ucast T) AND PROMOTION = base AND PROMOTION"
    "(base OR ATTACK OR ucast T) AND EN_PASSANT = 0"
    "(base OR ATTACK OR ucast T) AND DOUBLE_MOVE = 0"
    "(base OR ATTACK OR ucast T) AND FIRST_MOVE = base AND FIRST_MOVE"
    "(base OR ATTACK OR ucast T) AND CASTLE_RIGHT_BEFORE_MOVE = base AND CASTLE_RIGHT_BEFORE_MOVE"
    "(base OR ATTACK OR ucast T) AND CASTLE_LEFT_BEFORE_MOVE = base AND CASTLE_LEFT_BEFORE_MOVE"
  using assms unfolding base_flags_def
  by (auto simp add: bit.conj_disj_distrib2)

lemma first_move_flags_cases:
  "first_move_flags g w = 0 \<or> first_move_flags g w = 384 \<or> first_move_flags g w = 640
     \<or> first_move_flags g w = 896"
  by (simp add: first_move_flags_def Let_def)

lemma first_move_flags_base: "base_flags (first_move_flags g w)"
  using first_move_flags_cases[of g w] by (auto simp: base_flags_def)

lemma first_move_flags_bits:
  "(first_move_flags g w AND CASTLE_RIGHT_BEFORE_MOVE \<noteq> 0) = can_castle_right g w"
  "(first_move_flags g w AND CASTLE_LEFT_BEFORE_MOVE \<noteq> 0) = can_castle_left g w"
  "(first_move_flags g w AND FIRST_MOVE \<noteq> 0) = (can_castle_right g w \<or> can_castle_left g w)"
  "first_move_flags g w AND PROMOTION = 0"
  by (simp_all add: first_move_flags_def Let_def)

lemma rook_first_move_flag_cases:
  "rook_first_move_flag g pos = 0 \<or> rook_first_move_flag g pos = 384
     \<or> rook_first_move_flag g pos = 640 \<or> rook_first_move_flag g pos = 896"
  by (simp add: rook_first_move_flag_def Let_def)

lemma rook_first_move_flag_base: "base_flags (rook_first_move_flag g pos)"
  using rook_first_move_flag_cases[of g pos] by (auto simp: base_flags_def)

lemma rook_first_move_flag_bits:
  "rook_first_move_flag g pos AND FIRST_MOVE \<noteq> 0 \<Longrightarrow>
     (rook_first_move_flag g pos AND CASTLE_RIGHT_BEFORE_MOVE \<noteq> 0)
       = can_castle_right g (team (board g ! pos) = WHITE)"
  "rook_first_move_flag g pos AND FIRST_MOVE \<noteq> 0 \<Longrightarrow>
     (rook_first_move_flag g pos AND CASTLE_LEFT_BEFORE_MOVE \<noteq> 0)
       = can_castle_left g (team (board g ! pos) = WHITE)"
  "rook_first_move_flag g pos AND PROMOTION = 0"
  by (auto simp add: rook_first_move_flag_def Let_def split: if_splits)

lemma base_flags_bits:
  "base_flags fl \<Longrightarrow> fl AND ATTACK = 0"
  "base_flags fl \<Longrightarrow> fl AND EN_PASSANT = 0"
  "base_flags fl \<Longrightarrow> fl AND DOUBLE_MOVE = 0"
  by (simp_all add: base_flags_def)

lemma move_ok_plain:
  assumes ok: "board_ok g" and s: "source m < 64"
    and pm: "plain_move g (board g ! source m) base m"
    and ne: "ptype (board g ! source m) \<noteq> NONE"
    and bf: "base_flags base"
    and prom: "(base AND PROMOTION \<noteq> 0) =
                 (ptype (board g ! source m) = PAWN \<and> (destination m div 8 = 0 \<or> destination m div 8 = 7))"
    and king: "ptype (board g ! source m) = KING \<Longrightarrow>
                 \<not> \<bar>int (source m mod 8) - int (destination m mod 8)\<bar> > 1"
    and first: "base AND FIRST_MOVE \<noteq> 0 \<Longrightarrow>
                 (ptype (board g ! source m) = KING \<or> ptype (board g ! source m) = ROOK)
                 \<and> (base AND CASTLE_RIGHT_BEFORE_MOVE \<noteq> 0)
                     = can_castle_right g (team (board g ! source m) = WHITE)
                 \<and> (base AND CASTLE_LEFT_BEFORE_MOVE \<noteq> 0)
                     = can_castle_left g (team (board g ! source m) = WHITE)"
  shows "move_ok g m"
proof -
  let ?p = "board g ! source m" and ?t = "board g ! destination m"
  from pm have d: "destination m < 64" by (simp add: plain_move_def)
  have vt: "valid_piece ?t" using ok d by (rule board_okD(2))
  have nc: "(ptype ?p = KING \<and> \<bar>int (source m mod 8) - int (destination m mod 8)\<bar> > 1) = False"
    using king by auto
  from pm consider
      (empty) "ptype ?t = NONE" "flags m = base"
    | (capture) "ptype ?t \<noteq> NONE" "team ?t \<noteq> team ?p" "flags m = base OR ATTACK OR ucast (ptype ?t)"
    by (auto simp: plain_move_def Let_def)
  then show ?thesis
  proof cases
    case empty
    have sd: "source m \<noteq> destination m" using empty(1) ne by auto
    show ?thesis
      unfolding move_ok_def Let_def
      using s d sd ne empty base_flags_bits[OF bf] prom first
      by (simp add: nc)
  next
    case capture
    have sd: "source m \<noteq> destination m" using capture(2) by auto
    note B = capture_flag_bits[OF bf valid_ptype[OF vt capture(1)]]
    show ?thesis
      unfolding move_ok_def Let_def
      using s d sd ne capture(1,2) prom first
      by (simp add: capture(3) B get_attacked_piece_type_def nc)
  qed
qed

lemma square_in_range:
  "0 \<le> c \<Longrightarrow> c < 8 \<Longrightarrow> 0 \<le> r \<Longrightarrow> r < 8 \<Longrightarrow> nat (r * 8 + c) < 64"
  by linarith

lemma square_col_row:
  assumes "0 \<le> c" "c < 8" "0 \<le> r" "r < 8"
  shows "int (nat (r * 8 + c) mod 8) = c" "int (nat (r * 8 + c) div 8) = r"
proof -
  have "nat (r * 8 + c) = nat r * 8 + nat c" using assms by (simp add: nat_add_distrib nat_mult_distrib)
  moreover have "nat c < 8" using assms by simp
  ultimately show "int (nat (r * 8 + c) mod 8) = c" "int (nat (r * 8 + c) div 8) = r"
    using assms by simp_all
qed

lemma Call_On_simps [simp]:
  "source (Call_On pos c r fl) = pos"
  "destination (Call_On pos c r fl) = nat (r * 8 + c)"
  "flags (Call_On pos c r fl) = fl"
  by (simp_all add: Call_On_def)

lemma Iterate_Col_And_Row_plain:
  "m \<in> set (Iterate_Col_And_Row n g piece pos cd rd fl c r) \<Longrightarrow>
   source m = pos \<and> plain_move g piece fl m"
proof (induction n arbitrary: c r)
  case 0
  then show ?case by simp
next
  case (Suc n)
  show ?case
  proof (cases "c < 8 \<and> r < 8 \<and> c > -1 \<and> r > -1")
    case False
    with Suc.prems show ?thesis by auto
  next
    case True
    then have rng: "nat (r * 8 + c) < 64" by linarith
    from Suc.prems True consider
        (here) "ptype (piece_at g c r) = NONE" "m = Call_On pos c r fl"
      | (further) "m \<in> set (Iterate_Col_And_Row n g piece pos cd rd fl (c + cd) (r + rd))"
      | (capture) "ptype (piece_at g c r) \<noteq> NONE" "team (piece_at g c r) \<noteq> team piece"
          "m = Call_On pos c r (fl OR ATTACK OR ucast (ptype (piece_at g c r)))"
      by (auto simp: Let_def split: if_splits)
    then show ?thesis
    proof cases
      case here
      then show ?thesis using rng by (simp add: plain_move_def piece_at_def)
    next
      case further
      then show ?thesis by (rule Suc.IH)
    next
      case capture
      then show ?thesis using rng by (simp add: plain_move_def piece_at_def)
    qed
  qed
qed

lemma slide_plain:
  "m \<in> set (slide g pos fl d) \<Longrightarrow> source m = pos \<and> plain_move g (board g ! pos) fl m"
  unfolding slide_def Let_def by (rule Iterate_Col_And_Row_plain)

lemma queen_moves_plain:
  "m \<in> set (queen_moves g pos) \<Longrightarrow> source m = pos \<and> plain_move g (board g ! pos) NO_ACTION m"
  unfolding queen_moves_def by (auto dest: slide_plain)

lemma bishop_moves_plain:
  "m \<in> set (bishop_moves g pos) \<Longrightarrow> source m = pos \<and> plain_move g (board g ! pos) NO_ACTION m"
  unfolding bishop_moves_def by (auto dest: slide_plain)

lemma rook_moves_plain:
  "m \<in> set (rook_moves g pos) \<Longrightarrow>
   source m = pos \<and> plain_move g (board g ! pos) (rook_first_move_flag g pos) m"
  unfolding rook_moves_def by (auto dest: slide_plain)

lemma Call_On_And_Maybe_Attack_plain:
  "m \<in> set (Call_On_And_Maybe_Attack g piece pos c r) \<Longrightarrow>
   source m = pos \<and> plain_move g piece NO_ACTION m"
  by (auto simp: Call_On_And_Maybe_Attack_def Let_def plain_move_def piece_at_def split: if_splits)

lemma in_concat_map: "m \<in> set (concat (map f xs)) \<longleftrightarrow> (\<exists>x \<in> set xs. m \<in> set (f x))"
  by auto

lemma knight_moves_plain:
  assumes "m \<in> set (knight_moves g pos)"
  shows "source m = pos \<and> plain_move g (board g ! pos) NO_ACTION m"
proof -
  from assms obtain c r where
    "m \<in> set (Call_On_And_Maybe_Attack g (board g ! pos) pos c r)"
    unfolding knight_moves_def Let_def in_concat_map by (auto simp del: set_concat)
  then show ?thesis by (rule Call_On_And_Maybe_Attack_plain)
qed


lemma in_concat_map_guard:
  "m \<in> set (concat (map (\<lambda>x. if bad x then [] else f x) xs)) \<Longrightarrow>
   \<exists>x \<in> set xs. \<not> bad x \<and> m \<in> set (f x)"
  by (auto split: if_splits)

lemma king_steps_plain:
  assumes "m \<in> set (king_steps g pos)"
  shows "source m = pos"
    "plain_move g (board g ! pos) (first_move_flags g (team (board g ! pos) = WHITE)) m"
    "\<not> \<bar>int (pos mod 8) - int (destination m mod 8)\<bar> > 1"
proof -
  let ?col = "int (pos mod 8)" and ?row = "int (pos div 8)"
  let ?fmf = "first_move_flags g (team (board g ! pos) = WHITE)"
  let ?cell = "\<lambda>i j. (if ptype (piece_at g j i) = NONE then [Call_On pos j i ?fmf]
                   else if team (piece_at g j i) \<noteq> team (board g ! pos) then
                     [Call_On pos j i (?fmf OR ATTACK OR ucast (ptype (piece_at g j i)))]
                   else [])"
  have "m \<in> set (concat (map (\<lambda>i. if i < 0 \<or> i > 7 then []
              else concat (map (\<lambda>j. if j < 0 \<or> j > 7 then [] else ?cell i j)
                      [?col - 1, ?col, ?col + 1]))
            [?row - 1, ?row, ?row + 1]))"
    using assms unfolding king_steps_def Let_def .
  from in_concat_map_guard[OF this] obtain i where
    i2: "\<not> (i < 0 \<or> i > 7)"
    and mi: "m \<in> set (concat (map (\<lambda>j. if j < 0 \<or> j > 7 then [] else ?cell i j)
                      [?col - 1, ?col, ?col + 1]))"
    by blast
  from in_concat_map_guard[OF mi] obtain j where
    j1: "j \<in> set [?col - 1, ?col, ?col + 1]" and j2: "\<not> (j < 0 \<or> j > 7)"
    and mj: "m \<in> set (?cell i j)"
    by blast
  from mj have m: "(ptype (piece_at g j i) = NONE \<and> m = Call_On pos j i ?fmf)
          \<or> (ptype (piece_at g j i) \<noteq> NONE \<and> team (piece_at g j i) \<noteq> team (board g ! pos)
             \<and> m = Call_On pos j i (?fmf OR ATTACK OR ucast (ptype (piece_at g j i))))"
    by (auto split: if_splits)
  have d: "destination m = nat (i * 8 + j)" and s: "source m = pos" using m by auto
  have rng: "nat (i * 8 + j) < 64" using i2 j2 by linarith
  show "source m = pos" by (rule s)
  show "plain_move g (board g ! pos) ?fmf m"
    using m rng by (auto simp add: plain_move_def piece_at_def)
  have "int (destination m mod 8) = j"
    unfolding d using i2 j2 by (intro square_col_row) simp_all
  then show "\<not> \<bar>?col - int (destination m mod 8)\<bar> > 1" using j1 by auto
qed

lemma base_flags_0 [simp]: "base_flags 0"
  by (simp add: base_flags_def)

lemma queen_moves_ok:
  assumes "board_ok g" "pos < 64" "ptype (board g ! pos) = QUEEN" "m \<in> set (queen_moves g pos)"
  shows "move_ok g m"
proof -
  from queen_moves_plain[OF assms(4)] have s: "source m = pos"
    and p: "plain_move g (board g ! source m) NO_ACTION m" by simp_all
  show ?thesis
    by (rule move_ok_plain[OF assms(1) _ p]) (simp_all add: s assms)
qed

lemma bishop_moves_ok:
  assumes "board_ok g" "pos < 64" "ptype (board g ! pos) = BISHOP" "m \<in> set (bishop_moves g pos)"
  shows "move_ok g m"
proof -
  from bishop_moves_plain[OF assms(4)] have s: "source m = pos"
    and p: "plain_move g (board g ! source m) NO_ACTION m" by simp_all
  show ?thesis
    by (rule move_ok_plain[OF assms(1) _ p]) (simp_all add: s assms)
qed

lemma knight_moves_ok:
  assumes "board_ok g" "pos < 64" "ptype (board g ! pos) = KNIGHT" "m \<in> set (knight_moves g pos)"
  shows "move_ok g m"
proof -
  from knight_moves_plain[OF assms(4)] have s: "source m = pos"
    and p: "plain_move g (board g ! source m) NO_ACTION m" by simp_all
  show ?thesis
    by (rule move_ok_plain[OF assms(1) _ p]) (simp_all add: s assms)
qed

lemma rook_moves_ok:
  assumes "board_ok g" "pos < 64" "ptype (board g ! pos) = ROOK" "m \<in> set (rook_moves g pos)"
  shows "move_ok g m"
proof -
  from rook_moves_plain[OF assms(4)] have s: "source m = pos"
    and p: "plain_move g (board g ! source m) (rook_first_move_flag g pos) m" by simp_all
  show ?thesis
    by (rule move_ok_plain[OF assms(1) _ p])
       (simp_all add: s assms rook_first_move_flag_base rook_first_move_flag_bits)
qed

lemma king_steps_ok:
  assumes "board_ok g" "pos < 64" "ptype (board g ! pos) = KING" "m \<in> set (king_steps g pos)"
  shows "move_ok g m"
proof -
  note K = king_steps_plain[OF assms(4)]
  have p: "plain_move g (board g ! source m) (first_move_flags g (team (board g ! source m) = WHITE)) m"
    using K(1,2) by simp
  show ?thesis
    by (rule move_ok_plain[OF assms(1) _ p])
       (use K(3) in \<open>simp_all add: K(1) assms first_move_flags_base first_move_flags_bits\<close>)
qed

lemma nat_square: "nat (int r * 8 + int c) = r * 8 + c"
  by (simp add: nat_add_distrib nat_mult_distrib)

lemma pos_split: "(pos::nat) = pos div 8 * 8 + pos mod 8"
  by simp

lemma piece_of_type_team:
  "ptype p = t \<Longrightarrow> team p = c \<Longrightarrow> p = t OR team_code c"
  using piece_split[of p] by simp

text \<open>
  The shape of a castling move: the king at \<open>pos\<close> goes to column \<open>dc\<close> of its row with
  the first-move flags.
\<close>

lemma castle_shape_ok:
  fixes dc :: nat
  assumes ok: "board_ok g" and pos: "pos < 64" and kg: "ptype (board g ! pos) = KING"
    and m: "m = Call_On pos (int dc) (int (pos div 8)) (first_move_flags g (team (board g ! pos) = WHITE))"
    and fm: "first_move_flags g (team (board g ! pos) = WHITE) AND FIRST_MOVE \<noteq> 0"
    and dest: "ptype (board g ! (pos div 8 * 8 + dc)) = NONE"
    and shape:
      "dc = 6 \<and> pos mod 8 < 5 \<and> ptype (board g ! (pos div 8 * 8 + 5)) = NONE
         \<and> ptype (board g ! (pos div 8 * 8 + 7)) = ROOK
         \<and> team (board g ! (pos div 8 * 8 + 7)) = team (board g ! pos)
       \<or> 1 \<le> dc \<and> dc + 1 < pos mod 8 \<and> ptype (board g ! (pos div 8 * 8 + dc + 1)) = NONE"
  shows "move_ok g m"
proof -
  let ?r = "pos div 8" and ?fmf = "first_move_flags g (team (board g ! pos) = WHITE)"
  have r: "?r < 8" using pos by simp
  have dc: "dc < 8" using shape by auto
  have s: "source m = pos" and d: "destination m = ?r * 8 + dc" and f: "flags m = ?fmf"
    by (simp_all add: m nat_square)
  have d64: "?r * 8 + dc < 64" using r dc by simp
  have dm: "(?r * 8 + dc) mod 8 = dc" "(?r * 8 + dc) div 8 = ?r" using dc by simp_all
  have sd: "pos \<noteq> ?r * 8 + dc" using dest kg by auto
  have B: "?fmf AND ATTACK = 0" "?fmf AND EN_PASSANT = 0" "?fmf AND DOUBLE_MOVE = 0"
    by (rule base_flags_bits[OF first_move_flags_base])+
  have v: "\<And>i. i < 64 \<Longrightarrow> ptype (board g ! i) = NONE \<Longrightarrow> board g ! i = NONE"
    using board_okD(2)[OF ok] valid_empty by blast
  from shape show ?thesis
  proof
    assume R: "dc = 6 \<and> pos mod 8 < 5 \<and> ptype (board g ! (?r * 8 + 5)) = NONE
         \<and> ptype (board g ! (?r * 8 + 7)) = ROOK
         \<and> team (board g ! (?r * 8 + 7)) = team (board g ! pos)"
    have "?r * 8 + 5 < 64" using r by simp
    with R have e5: "board g ! (?r * 8 + 5) = NONE" by (intro v) simp_all
    have rk: "board g ! (?r * 8 + 7) = ROOK OR team_code (team (board g ! pos))"
      using R by (intro piece_of_type_team) simp_all
    show ?thesis
      unfolding move_ok_def Let_def s d f
      using pos d64 sd kg dest B fm R e5 rk dc
      by (simp add: dm first_move_flags_bits)
  next
    assume L: "1 \<le> dc \<and> dc + 1 < pos mod 8 \<and> ptype (board g ! (?r * 8 + dc + 1)) = NONE"
    have "pos mod 8 < 8" by simp
    with L r have "?r * 8 + dc + 1 < 64" by linarith
    with L have e: "board g ! (?r * 8 + dc + 1) = NONE" by (intro v) simp_all
    have n6: "dc \<noteq> 6" using L \<open>pos mod 8 < 8\<close> by linarith
    show ?thesis
      unfolding move_ok_def Let_def s d f
      using pos d64 sd kg dest B fm L e n6 dc
      by (simp add: dm first_move_flags_bits)
  qed
qed

lemma nat_square_numeral [simp]:
  "nat (int r * 8 + numeral k) = r * 8 + numeral k"
  "nat (int r * 8 + 1) = r * 8 + 1"
  "nat (int r * 8) = r * 8"
  by (simp_all add: nat_add_distrib nat_mult_distrib)

lemma king_column:
  assumes "ptype (board g ! pos) = KING" "ptype (board g ! (pos div 8 * 8 + c)) \<noteq> KING"
  shows "pos mod 8 \<noteq> c"
proof
  assume "pos mod 8 = c"
  then have "pos div 8 * 8 + c = pos" by auto
  with assms show False by simp
qed

lemma castle_moves_ok:
  assumes ok: "board_ok g" and pos: "pos < 64" and kg: "ptype (board g ! pos) = KING"
    and m: "m \<in> set (castle_moves g pos)"
  shows "move_ok g m"
proof -
  let ?r = "pos div 8" and ?w = "team (board g ! pos) = WHITE"
  let ?fmf = "first_move_flags g ?w"
  have c8: "pos mod 8 < 8" by simp
  from m consider
      (right) "can_castle_right g ?w" "ptype (board g ! (?r * 8 + 7)) = ROOK"
        "team (board g ! (?r * 8 + 7)) = team (board g ! pos)"
        "ptype (board g ! (?r * 8 + 5)) = NONE" "ptype (board g ! (?r * 8 + 6)) = NONE"
        "m = Call_On pos 6 (int ?r) ?fmf"
    | (left) "can_castle_left g ?w" "ptype (board g ! (?r * 8)) = ROOK"
        "ptype (board g ! (?r * 8 + 3)) = NONE" "ptype (board g ! (?r * 8 + 2)) = NONE"
        "ptype (board g ! (?r * 8 + 1)) = NONE"
        "m = Call_On pos 2 (int ?r) ?fmf \<or> m = Call_On pos 1 (int ?r) ?fmf"
    unfolding castle_moves_def Let_def
    by (auto simp: Is_Occupied_def piece_at_def split: if_splits)
  then show ?thesis
  proof cases
    case right
    have "pos mod 8 \<noteq> 5" "pos mod 8 \<noteq> 6" "pos mod 8 \<noteq> 7"
      using right(2,4,5) by (intro king_column[OF kg]; simp)+
    then have c: "pos mod 8 < 5" using c8 by linarith
    show ?thesis
      by (rule castle_shape_ok[OF ok pos kg, where dc = 6])
         (use right c in \<open>simp_all add: first_move_flags_bits\<close>)
  next
    case left
    have "pos mod 8 \<noteq> 0" "pos mod 8 \<noteq> 1" "pos mod 8 \<noteq> 2" "pos mod 8 \<noteq> 3"
      using left(2-5) king_column[OF kg, of 0] by (intro king_column[OF kg]; simp)+
    then have c: "3 < pos mod 8" by linarith
    from left(6) show ?thesis
    proof
      assume m2: "m = Call_On pos 2 (int ?r) ?fmf"
      have "1 \<le> (2::nat) \<and> 2 + 1 < pos mod 8 \<and> ptype (board g ! (?r * 8 + 2 + 1)) = NONE"
        using left(3) c by (simp add: numeral_3_eq_3)
      then show ?thesis
        by (intro castle_shape_ok[OF ok pos kg, where dc = 2] disjI2)
           (use left m2 in \<open>simp_all add: first_move_flags_bits\<close>)
    next
      assume m1: "m = Call_On pos 1 (int ?r) ?fmf"
      have "1 \<le> (1::nat) \<and> 1 + 1 < pos mod 8 \<and> ptype (board g ! (?r * 8 + 1 + 1)) = NONE"
        using left(4) c by (simp add: numeral_2_eq_2)
      then show ?thesis
        by (intro castle_shape_ok[OF ok pos kg, where dc = 1] disjI2)
           (use left m1 in \<open>simp_all add: first_move_flags_bits\<close>)
    qed
  qed
qed

lemma promotion_flag_base [simp]: "base_flags PROMOTION"
  by (simp add: base_flags_def)

lemma in_guarded_pair:
  "m \<in> set (if a then x # (if b then [y] else []) else []) \<Longrightarrow> a \<and> (m = x \<or> b \<and> m = y)"
  by (cases a; cases b; simp)

lemma in_guarded_single:
  "m \<in> set (if a then (if b then [x] else []) else []) \<Longrightarrow> a \<and> b \<and> m = x"
  by (cases a; cases b; simp)

lemma in_guarded_head:
  "m \<in> set (case h of [] \<Rightarrow> [] | x # _ \<Rightarrow> if P x then [f x] else []) \<Longrightarrow>
   \<exists>x rest. h = x # rest \<and> P x \<and> m = f x"
  by (cases h; simp split: if_splits)

lemma pawn_moves_cases:
  fixes g pos
  defines "direction \<equiv> (if team (board g ! pos) = WHITE then - 1 else (1::int))"
  defines "col \<equiv> int (pos mod 8)" and "row \<equiv> int (pos div 8)"
  defines "promotion_flag \<equiv>
             (if row + direction = 0 \<or> row + direction = 7 then PROMOTION else NO_ACTION)"
  assumes m: "m \<in> set (pawn_moves g pos)"
  shows
    "(\<not> Is_Occupied g col (row + direction)
        \<and> m = Call_On pos col (row + direction) promotion_flag)
     \<or> (\<not> Is_Occupied g col (row + direction)
        \<and> row = (if team (board g ! pos) = WHITE then 6 else 1)
        \<and> \<not> Is_Occupied g col (row + direction * 2)
        \<and> m = Call_On pos col (row + direction * 2) DOUBLE_MOVE)
     \<or> (\<exists>c. (c = col - 1 \<and> col - 1 \<ge> 0 \<or> c = col + 1 \<and> col + 1 \<le> 7)
        \<and> ptype (piece_at g c (row + direction)) \<noteq> NONE
        \<and> team (piece_at g c (row + direction)) \<noteq> team (board g ! pos)
        \<and> m = Call_On pos c (row + direction)
                 (promotion_flag OR ATTACK OR ucast (ptype (piece_at g c (row + direction)))))
     \<or> (\<exists>last_move rest. history g = last_move # rest
        \<and> flags last_move AND DOUBLE_MOVE \<noteq> 0
        \<and> row = (if team (board g ! pos) = WHITE then 3 else 4)
        \<and> row = int (destination last_move div 8)
        \<and> \<bar>col - int (destination last_move mod 8)\<bar> = 1
        \<and> m = Call_On pos (col + (int (destination last_move) - int pos)) (row + direction)
                 EN_PASSANT)"
proof -
  have eq: "pawn_moves g pos =
     (if \<not> Is_Occupied g col (row + direction) then
           Call_On pos col (row + direction) promotion_flag
             # (if row = (if team (board g ! pos) = WHITE then 6 else 1)
                   \<and> \<not> Is_Occupied g col (row + direction * 2)
                then [Call_On pos col (row + direction * 2) DOUBLE_MOVE] else [])
         else [])
        @ (if col - 1 \<ge> 0 then
              if ptype (piece_at g (col - 1) (row + direction)) \<noteq> NONE
                 \<and> team (piece_at g (col - 1) (row + direction)) \<noteq> team (board g ! pos) then
                [Call_On pos (col - 1) (row + direction)
                   (promotion_flag OR ATTACK OR ucast (ptype (piece_at g (col - 1) (row + direction))))]
              else []
           else [])
        @ (if col + 1 \<le> 7 then
              if ptype (piece_at g (col + 1) (row + direction)) \<noteq> NONE
                 \<and> team (piece_at g (col + 1) (row + direction)) \<noteq> team (board g ! pos) then
                [Call_On pos (col + 1) (row + direction)
                   (promotion_flag OR ATTACK OR ucast (ptype (piece_at g (col + 1) (row + direction))))]
              else []
           else [])
        @ (case history g of
             [] \<Rightarrow> []
           | last_move # _ \<Rightarrow>
               if flags last_move AND DOUBLE_MOVE \<noteq> 0
                  \<and> row = (if team (board g ! pos) = WHITE then 3 else 4)
                  \<and> row = int (destination last_move div 8)
                  \<and> \<bar>col - int (destination last_move mod 8)\<bar> = 1
               then [Call_On pos (col + (int (destination last_move) - int pos))
                           (row + direction) EN_PASSANT]
               else [])"
    unfolding pawn_moves_def Let_def direction_def col_def row_def promotion_flag_def ..
  from m consider
      (a) "m \<in> set (if \<not> Is_Occupied g col (row + direction) then
           Call_On pos col (row + direction) promotion_flag
             # (if row = (if team (board g ! pos) = WHITE then 6 else 1)
                   \<and> \<not> Is_Occupied g col (row + direction * 2)
                then [Call_On pos col (row + direction * 2) DOUBLE_MOVE] else [])
         else [])"
    | (b) "m \<in> set (if col - 1 \<ge> 0 then
              if ptype (piece_at g (col - 1) (row + direction)) \<noteq> NONE
                 \<and> team (piece_at g (col - 1) (row + direction)) \<noteq> team (board g ! pos) then
                [Call_On pos (col - 1) (row + direction)
                   (promotion_flag OR ATTACK OR ucast (ptype (piece_at g (col - 1) (row + direction))))]
              else []
           else [])"
    | (c) "m \<in> set (if col + 1 \<le> 7 then
              if ptype (piece_at g (col + 1) (row + direction)) \<noteq> NONE
                 \<and> team (piece_at g (col + 1) (row + direction)) \<noteq> team (board g ! pos) then
                [Call_On pos (col + 1) (row + direction)
                   (promotion_flag OR ATTACK OR ucast (ptype (piece_at g (col + 1) (row + direction))))]
              else []
           else [])"
    | (d) "m \<in> set (case history g of
             [] \<Rightarrow> []
           | last_move # _ \<Rightarrow>
               if flags last_move AND DOUBLE_MOVE \<noteq> 0
                  \<and> row = (if team (board g ! pos) = WHITE then 3 else 4)
                  \<and> row = int (destination last_move div 8)
                  \<and> \<bar>col - int (destination last_move mod 8)\<bar> = 1
               then [Call_On pos (col + (int (destination last_move) - int pos))
                           (row + direction) EN_PASSANT]
               else [])"
    unfolding eq set_append Un_iff by blast
  then show ?thesis
  proof cases
    case a
    from in_guarded_pair[OF a] show ?thesis by blast
  next
    case b
    from in_guarded_single[OF b] show ?thesis by blast
  next
    case c
    from in_guarded_single[OF c] show ?thesis by blast
  next
    case d
    from in_guarded_head[OF d] show ?thesis by blast
  qed
qed

lemma double_step_ok:
  assumes ok: "board_ok g" and pos: "pos < 64" and pw: "ptype (board g ! pos) = PAWN"
    and m: "m = \<lparr>source = pos, destination = d, flags = DOUBLE_MOVE\<rparr>"
    and d: "d < 64" and e: "ptype (board g ! d) = NONE"
    and shape: "if team (board g ! pos) = WHITE
                then pos div 8 = 6 \<and> d + 16 = pos \<and> ptype (board g ! (pos - 8)) = NONE
                else pos div 8 = 1 \<and> d = pos + 16 \<and> ptype (board g ! (pos + 8)) = NONE"
  shows "move_ok g m"
proof -
  have v: "\<And>i. i < 64 \<Longrightarrow> ptype (board g ! i) = NONE \<Longrightarrow> board g ! i = NONE"
    using board_okD(2)[OF ok] valid_empty by blast
  have sd: "pos \<noteq> d" using e pw by auto
  show ?thesis
  proof (cases "team (board g ! pos) = WHITE")
    case True
    with shape have s: "pos div 8 = 6" "d + 16 = pos" "ptype (board g ! (pos - 8)) = NONE" by simp_all
    have "board g ! (pos - 8) = NONE" using s(3) pos by (intro v) simp_all
    moreover have "d div 8 = 4"
    proof -
      have "pos = 6 * 8 + pos mod 8" using pos_split[of pos] s(1) by simp
      then have "d = 4 * 8 + pos mod 8" using s(2) by linarith
      then show ?thesis by simp
    qed
    ultimately show ?thesis
      unfolding move_ok_def Let_def using pos d sd pw e s True
      by (simp add: m)
  next
    case False
    with shape have s: "pos div 8 = 1" "d = pos + 16" "ptype (board g ! (pos + 8)) = NONE" by simp_all
    have p8: "pos = 1 * 8 + pos mod 8" using pos_split[of pos] s(1) by simp
    have "pos mod 8 < 8" by simp
    with p8 have "pos + 8 < 64" by linarith
    then have "board g ! (pos + 8) = NONE" using s(3) by (intro v) simp_all
    moreover have "d div 8 = 3"
    proof -
      have "d = 3 * 8 + pos mod 8" using s(2) p8 by linarith
      then show ?thesis by simp
    qed
    ultimately show ?thesis
      unfolding move_ok_def Let_def using pos d sd pw e s False
      by (simp add: m)
  qed
qed

lemma en_passant_ok:
  assumes ok: "board_ok g" and pos: "pos < 64" and pw: "ptype (board g ! pos) = PAWN"
    and m: "m = \<lparr>source = pos, destination = d, flags = EN_PASSANT\<rparr>"
    and d: "d < 64" "1 \<le> d div 8" "d div 8 \<le> 6" and e: "board g ! d = NONE"
    and q: "q < 64" "board g ! q = PAWN OR team_code (other_team (board g ! pos))"
    and shape: "if team (board g ! pos) = WHITE
                then q + 1 = pos \<and> d + 9 = pos \<or> q = pos + 1 \<and> d + 7 = pos
                else q = pos + 1 \<and> d = pos + 9 \<or> q + 1 = pos \<and> d = pos + 7"
  shows "move_ok g m"
proof -
  have sd: "pos \<noteq> d" using e pw by (auto simp: ptype_def)
  have off: "nat (int pos + en_passant_offset m (team (board g ! pos) = WHITE)) = q"
    using shape by (auto simp: en_passant_offset_def m Let_def split: if_splits)
  have qs: "q \<noteq> pos" "q \<noteq> d" using shape by (auto split: if_splits)
  have e': "ptype (board g ! d) = NONE" using e by (simp add: ptype_def)
  show ?thesis
    unfolding move_ok_def Let_def using pos d sd pw e' q qs
    by (simp add: m off[unfolded m])
qed

lemma history_okD:
  assumes "history_ok g" "history g = last_move # rest" "flags last_move AND DOUBLE_MOVE \<noteq> 0"
  shows "destination last_move < 64"
    "destination last_move div 8 = 3 \<Longrightarrow>
       board g ! destination last_move = PAWN OR 1 \<and> board g ! (destination last_move - 8) = NONE"
    "destination last_move div 8 = 4 \<Longrightarrow>
       board g ! destination last_move = PAWN \<and> board g ! (destination last_move + 8) = NONE"
  using assms by (simp_all add: history_ok_def Let_def)

lemma pawn_moves_ok:
  assumes ok: "board_ok g" and hk: "history_ok g" and pos: "pos < 64"
    and pw: "ptype (board g ! pos) = PAWN" and m: "m \<in> set (pawn_moves g pos)"
  shows "move_ok g m"
proof -
  define w where "w = (team (board g ! pos) = WHITE)"
  define direction :: int where "direction = (if w then - 1 else 1)"
  define c where "c = pos mod 8"
  define r where "r = pos div 8"
  define pf :: MoveFlags where
    "pf = (if int r + direction = 0 \<or> int r + direction = 7 then PROMOTION else NO_ACTION)"
  have c8: "c < 8" by (simp add: c_def)
  have posrc: "pos = r * 8 + c" by (simp add: r_def c_def)
  from board_okD(3)[OF ok pos pw] have r16: "1 \<le> r" "r \<le> 6" by (simp_all add: r_def)
  then have R: "0 \<le> int r + direction" "int r + direction < 8" by (auto simp: direction_def)
  have pfb: "base_flags pf" by (simp add: pf_def)
  have ne: "ptype (board g ! pos) \<noteq> NONE" using pw by simp
  have v: "\<And>i. i < 64 \<Longrightarrow> ptype (board g ! i) = NONE \<Longrightarrow> board g ! i = NONE"
    using board_okD(2)[OF ok] valid_empty by blast
  have plain: "move_ok g m"
    if s: "source m = pos" and d: "destination m = nat ((int r + direction) * 8 + c')"
      and c': "0 \<le> c'" "c' < 8" and p: "plain_move g (board g ! pos) pf m" for c'
  proof (rule move_ok_plain[OF ok _ _ _ pfb])
    show "source m < 64" using s pos by simp
    show "plain_move g (board g ! source m) pf m" using p s by simp
    show "ptype (board g ! source m) \<noteq> NONE" using ne s by simp
    have "int (destination m div 8) = int r + direction"
      unfolding d using c' R by (intro square_col_row) simp_all
    then show "(pf AND PROMOTION \<noteq> 0) =
        (ptype (board g ! source m) = PAWN \<and> (destination m div 8 = 0 \<or> destination m div 8 = 7))"
      using pw s by (auto simp: pf_def)
    show "ptype (board g ! source m) = KING \<Longrightarrow>
        \<not> \<bar>int (source m mod 8) - int (destination m mod 8)\<bar> > 1"
      using pw s by simp
    show "pf AND FIRST_MOVE \<noteq> 0 \<Longrightarrow>
        (ptype (board g ! source m) = KING \<or> ptype (board g ! source m) = ROOK) \<and>
        (pf AND CASTLE_RIGHT_BEFORE_MOVE \<noteq> 0) = can_castle_right g (team (board g ! source m) = WHITE) \<and>
        (pf AND CASTLE_LEFT_BEFORE_MOVE \<noteq> 0) = can_castle_left g (team (board g ! source m) = WHITE)"
      by (simp add: pf_def split: if_splits)
  qed
  from pawn_moves_cases[OF m, folded w_def, folded direction_def c_def r_def, folded pf_def]
  consider
      (forward) "\<not> Is_Occupied g (int c) (int r + direction)"
        "m = Call_On pos (int c) (int r + direction) pf"
    | (double) "\<not> Is_Occupied g (int c) (int r + direction)"
        "int r = (if w then 6 else 1)"
        "\<not> Is_Occupied g (int c) (int r + direction * 2)"
        "m = Call_On pos (int c) (int r + direction * 2) DOUBLE_MOVE"
    | (capture) c' where "c' = int c - 1 \<and> int c - 1 \<ge> 0 \<or> c' = int c + 1 \<and> int c + 1 \<le> 7"
        "ptype (piece_at g c' (int r + direction)) \<noteq> NONE"
        "team (piece_at g c' (int r + direction)) \<noteq> team (board g ! pos)"
        "m = Call_On pos c' (int r + direction)
               (pf OR ATTACK OR ucast (ptype (piece_at g c' (int r + direction))))"
    | (en_passant) last_move rest where "history g = last_move # rest"
        "flags last_move AND DOUBLE_MOVE \<noteq> 0"
        "int r = (if w then 3 else 4)"
        "int r = int (destination last_move div 8)"
        "\<bar>int c - int (destination last_move mod 8)\<bar> = 1"
        "m = Call_On pos (int c + (int (destination last_move) - int pos)) (int r + direction)
               EN_PASSANT"
    by blast
  then show ?thesis
  proof cases
    case forward
    have rng: "nat ((int r + direction) * 8 + int c) < 64"
      by (intro square_in_range) (use R c8 in simp_all)
    show ?thesis
      by (rule plain[of "int c"])
         (use forward rng c8 in \<open>simp_all add: plain_move_def Is_Occupied_def\<close>)
  next
    case (capture c')
    then have c': "0 \<le> c'" "c' < 8" using c8 by auto
    have rng: "nat ((int r + direction) * 8 + c') < 64"
      by (intro square_in_range) (use R c' in simp_all)
    show ?thesis
      by (rule plain[of c'])
         (use capture(2-4) rng c' in \<open>simp_all add: plain_move_def piece_at_def\<close>)
  next
    case double
    show ?thesis
    proof (cases w)
      case True
      then have tw: "team (board g ! pos) = WHITE" by (simp add: w_def)
      from True double have r6: "r = 6" by simp
      have d: "nat ((int r + direction * 2) * 8 + int c) = 32 + c"
        using r6 True by (simp add: direction_def)
      have sk: "nat ((int r + direction) * 8 + int c) = 40 + c"
        using r6 True by (simp add: direction_def)
      have p: "pos = 48 + c" using posrc r6 by simp
      have 1: "m = \<lparr>source = pos, destination = 32 + c, flags = DOUBLE_MOVE\<rparr>"
        using double(4) d by (simp add: Call_On_def)
      have 2: "32 + c < 64" using c8 by simp
      have 3: "ptype (board g ! (32 + c)) = NONE"
        using double(3) d by (simp add: Is_Occupied_def)
      have "pos - 8 = 40 + c" using p by simp
      then have 4: "ptype (board g ! (pos - 8)) = NONE"
        using double(1) sk by (simp add: Is_Occupied_def)
      have 5: "pos div 8 = 6" "32 + c + 16 = pos" using r6 p by (simp_all add: r_def)
      show ?thesis
        by (rule double_step_ok[OF ok pos pw 1 2 3]) (use tw 4 5 in simp)
    next
      case False
      then have tw: "team (board g ! pos) \<noteq> WHITE" by (simp add: w_def)
      from False double have r1: "r = 1" by simp
      have d: "nat ((int r + direction * 2) * 8 + int c) = 24 + c"
        using r1 False by (simp add: direction_def)
      have sk: "nat ((int r + direction) * 8 + int c) = 16 + c"
        using r1 False by (simp add: direction_def)
      have p: "pos = 8 + c" using posrc r1 by simp
      have 1: "m = \<lparr>source = pos, destination = 24 + c, flags = DOUBLE_MOVE\<rparr>"
        using double(4) d by (simp add: Call_On_def)
      have 2: "24 + c < 64" using c8 by simp
      have 3: "ptype (board g ! (24 + c)) = NONE"
        using double(3) d by (simp add: Is_Occupied_def)
      have "pos + 8 = 16 + c" using p by simp
      then have 4: "ptype (board g ! (pos + 8)) = NONE"
        using double(1) sk by (simp add: Is_Occupied_def)
      have 5: "pos div 8 = 1" "24 + c = pos + 16" using r1 p by (simp_all add: r_def)
      show ?thesis
        by (rule double_step_ok[OF ok pos pw 1 2 3]) (use tw 4 5 in simp)
    qed
  next
    case (en_passant last_move rest)
    note H = history_okD[OF hk en_passant(1,2)]
    define q where "q = destination last_move"
    define lc where "lc = q mod 8"
    have lc8: "lc < 8" by (simp add: lc_def)
    have qrc: "q = r * 8 + lc" using en_passant(4) by (simp add: q_def lc_def)
    have adj: "lc + 1 = c \<or> lc = c + 1" using en_passant(5) by (auto simp: q_def lc_def)
    have mcol: "int c + (int q - int pos) = int lc" using qrc posrc by simp
    have mm: "m = Call_On pos (int lc) (int r + direction) EN_PASSANT"
      using en_passant(6) mcol by (simp add: q_def)
    have q64: "q < 64" using H(1) by (simp add: q_def)
    show ?thesis
    proof (cases w)
      case True
      then have tw: "team (board g ! pos) = WHITE" by (simp add: w_def)
      from True en_passant(3) have r3: "r = 3" by simp
      have q3: "q div 8 = 3" using qrc r3 lc8 by simp
      from H(2) q3 have bq: "board g ! q = PAWN OR 1" and be: "board g ! (q - 8) = NONE"
        by (simp_all add: q_def)
      have d: "nat ((int r + direction) * 8 + int lc) = 16 + lc"
        using r3 True by (simp add: direction_def)
      have p: "pos = 24 + c" and q24: "q = 24 + lc" using posrc qrc r3 by simp_all
      have 1: "m = \<lparr>source = pos, destination = 16 + lc, flags = EN_PASSANT\<rparr>"
        using mm d by (simp add: Call_On_def)
      have 2: "16 + lc < 64" "1 \<le> (16 + lc) div 8" "(16 + lc) div 8 \<le> 6" using lc8 by simp_all
      have "q - 8 = 16 + lc" using q24 by simp
      then have 3: "board g ! (16 + lc) = NONE" using be by simp
      have 4: "board g ! q = PAWN OR team_code (other_team (board g ! pos))"
        using bq tw by (simp add: other_team_def team_code_def)
      have 5: "q + 1 = pos \<and> 16 + lc + 9 = pos \<or> q = pos + 1 \<and> 16 + lc + 7 = pos"
        using adj p q24 by auto
      show ?thesis
        by (rule en_passant_ok[OF ok pos pw 1 2 3 q64 4]) (use tw 5 in simp)
    next
      case False
      then have tw: "team (board g ! pos) \<noteq> WHITE" by (simp add: w_def)
      from False en_passant(3) have r4: "r = 4" by simp
      have q4: "q div 8 = 4" using qrc r4 lc8 by simp
      from H(3) q4 have bq: "board g ! q = PAWN" and be: "board g ! (q + 8) = NONE"
        by (simp_all add: q_def)
      have d: "nat ((int r + direction) * 8 + int lc) = 40 + lc"
        using r4 False by (simp add: direction_def)
      have p: "pos = 32 + c" and q32: "q = 32 + lc" using posrc qrc r4 by simp_all
      have 1: "m = \<lparr>source = pos, destination = 40 + lc, flags = EN_PASSANT\<rparr>"
        using mm d by (simp add: Call_On_def)
      have 2: "40 + lc < 64" "1 \<le> (40 + lc) div 8" "(40 + lc) div 8 \<le> 6" using lc8 by simp_all
      have "q + 8 = 40 + lc" using q32 by simp
      then have 3: "board g ! (40 + lc) = NONE" using be by simp
      have 4: "board g ! q = PAWN OR team_code (other_team (board g ! pos))"
        using bq tw by (simp add: other_team_def team_code_def)
      have 5: "q = pos + 1 \<and> 40 + lc = pos + 9 \<or> q + 1 = pos \<and> 40 + lc = pos + 7"
        using adj p q32 by auto
      show ?thesis
        by (rule en_passant_ok[OF ok pos pw 1 2 3 q64 4]) (use tw 5 in simp)
    qed
  qed
qed

lemma candidate_moves_ok:
  assumes ok: "position_ok g" and pos: "pos < 64" and m: "m \<in> set (candidate_moves g pos full_check)"
  shows "move_ok g m"
proof -
  from ok have b: "board_ok g" and h: "history_ok g" by (simp_all add: position_ok_def)
  let ?t = "ptype (board g ! pos)"
  from m consider
      (pawn) "?t = PAWN" "m \<in> set (pawn_moves g pos)"
    | (king) "?t = KING" "m \<in> set (king_steps g pos)"
    | (castle) "?t = KING" "m \<in> set (castle_moves g pos)"
    | (queen) "?t = QUEEN" "m \<in> set (queen_moves g pos)"
    | (bishop) "?t = BISHOP" "m \<in> set (bishop_moves g pos)"
    | (knight) "?t = KNIGHT" "m \<in> set (knight_moves g pos)"
    | (rook) "?t = ROOK" "m \<in> set (rook_moves g pos)"
    unfolding candidate_moves_def pseudo_piece_moves_def Let_def
    by (auto split: if_splits)
  then show ?thesis
  proof cases
    case pawn then show ?thesis by (intro pawn_moves_ok[OF b h pos])
  next
    case king then show ?thesis by (intro king_steps_ok[OF b pos])
  next
    case castle then show ?thesis by (intro castle_moves_ok[OF b pos])
  next
    case queen then show ?thesis by (intro queen_moves_ok[OF b pos])
  next
    case bishop then show ?thesis by (intro bishop_moves_ok[OF b pos])
  next
    case knight then show ?thesis by (intro knight_moves_ok[OF b pos])
  next
    case rook then show ?thesis by (intro rook_moves_ok[OF b pos])
  qed
qed

lemma foreach_piece_subset:
  "set (foreach_piece_legal_move g pos full_check) \<subseteq> set (candidate_moves g pos full_check)"
  by (simp add: foreach_piece_legal_move_def)

lemma foreach_team_legal_moveD:
  assumes "m \<in> set (foreach_team_legal_move g tm full_check)"
  obtains pos where "pos < 64" "ptype (board g ! pos) \<noteq> NONE" "team (board g ! pos) = tm"
    "m \<in> set (foreach_piece_legal_move g pos full_check)"
  using assms unfolding foreach_team_legal_move_def Let_def
  by (auto split: if_splits)

lemma foreach_team_legal_move_ok:
  assumes "position_ok g" "m \<in> set (foreach_team_legal_move g tm full_check)"
  shows "move_ok g m"
proof -
  from assms(2) obtain pos where "pos < 64" "m \<in> set (foreach_piece_legal_move g pos full_check)"
    by (rule foreach_team_legal_moveD)
  then show ?thesis using candidate_moves_ok[OF assms(1)] foreach_piece_subset by blast
qed

section \<open>The invariant of the positions\<close>

lemma length_board_performe_move [simp]:
  "length (board (performe_move g m)) = length (board g)"
  by (simp add: performe_move_def Let_def if_distrib[where f = board] if_distrib[where f = length]
      split del: if_split cong: if_cong)

lemma valid_piece_simps [simp]:
  "valid_piece NONE" "valid_piece (QUEEN OR team_code c)"
  by (cases c; simp add: valid_piece_def team_code_def)+

lemma list_all_update:
  "list_all P xs \<Longrightarrow> P v \<Longrightarrow> list_all P (xs[i := v])"
  using set_update_subset_insert[of xs i v] by (auto simp: list_all_iff)

lemma list_all_nth: "list_all P xs \<Longrightarrow> i < length xs \<Longrightarrow> P (xs ! i)"
  by (simp add: list_all_length)

text \<open>Every byte that a move writes is the byte of a piece or of an empty square.\<close>

lemma valid_board_performe_move:
  assumes ok: "board_ok g" and mv: "move_ok g m"
  shows "list_all valid_piece (board (performe_move g m))"
proof -
  note D = move_okD[OF mv]
  have len: "length (board g) = 64" and all: "list_all valid_piece (board g)"
    using ok by (simp_all add: board_ok_def)
  have vp: "valid_piece (board g ! source m)" using board_okD(2)[OF ok D(1)] .
  let ?b1 = "(board g)[destination m := board g ! source m, source m := NONE]"
  have b1: "list_all valid_piece ?b1" by (intro list_all_update all vp) simp
  have nth: "\<And>i. i < 64 \<Longrightarrow> valid_piece (?b1 ! i)"
    using list_all_nth[OF b1] len by simp
  let ?p = "board g ! source m"
  consider (pawn) "ptype ?p = PAWN" | (king) "ptype ?p = KING"
    | (other) "ptype ?p \<noteq> PAWN" "ptype ?p \<noteq> KING" by blast
  then show ?thesis
  proof cases
    case pawn
    show ?thesis
      unfolding board_performe_move_pawn[OF pawn] Let_def
      by (auto intro!: list_all_update b1)
  next
    case king
    show ?thesis
    proof (cases "\<bar>int (source m mod 8) - int (destination m mod 8)\<bar> > 1")
      case False
      show ?thesis unfolding board_performe_move_king_step[OF king False] by (rule b1)
    next
      case True
      note C = move_ok_castleD[OF mv king True]
      have r: "destination m div 8 < 8" using D(2) by simp
      show ?thesis
      proof (cases "destination m mod 8 = 6")
        case six: True
        show ?thesis
          unfolding board_performe_move_castle_right[OF king True six] Let_def
          using r by (intro list_all_update b1 nth) simp_all
      next
        case nsix: False
        show ?thesis
          unfolding board_performe_move_castle_left[OF king True nsix] Let_def
          using r by (intro list_all_update b1 nth) simp_all
      qed
    qed
  next
    case other
    show ?thesis unfolding board_performe_move_other[OF other] by (rule b1)
  qed
qed

lemma ptype_simps [simp]:
  "ptype NONE = NONE" "ptype (ROOK OR team_code c) = ROOK" "ptype (PAWN OR team_code c) = PAWN"
  by (cases c; simp add: ptype_def team_code_def)+

lemma pawn_rows_performe_move:
  assumes ok: "board_ok g" and mv: "move_ok g m" and i: "i < 64"
    and pi: "ptype (board (performe_move g m) ! i) = PAWN"
  shows "1 \<le> i div 8 \<and> i div 8 \<le> 6"
proof -
  note D = move_okD[OF mv]
  note len = board_okD(1)[OF ok]
  note old = board_okD(3)[OF ok]
  let ?p = "board g ! source m"
  have step: "1 \<le> i div 8 \<and> i div 8 \<le> 6"
    if "ptype ((board g)[destination m := ?p, source m := NONE] ! i) = PAWN"
       "ptype ?p = PAWN \<Longrightarrow> 1 \<le> destination m div 8 \<and> destination m div 8 \<le> 6"
  proof (cases "i = source m")
    case True
    with that(1) D(1) len show ?thesis by simp
  next
    case False
    show ?thesis
    proof (cases "i = destination m")
      case True
      with that D(2,3) len show ?thesis by simp
    next
      case nd: False
      with False that(1) have "ptype (board g ! i) = PAWN" by simp
      then show ?thesis using old[OF i] by simp
    qed
  qed
  consider (pawn) "ptype ?p = PAWN" | (king) "ptype ?p = KING"
    | (other) "ptype ?p \<noteq> PAWN" "ptype ?p \<noteq> KING" by blast
  then show ?thesis
  proof cases
    case other
    show ?thesis
      using pi unfolding board_performe_move_other[OF other]
      by (rule step) (use other in simp)
  next
    case pawn
    show ?thesis
    proof (cases "flags m AND EN_PASSANT \<noteq> 0")
      case True
      note E = move_ok_en_passantD[OF mv True]
      let ?q = "nat (int (source m) + en_passant_offset m (team ?p = WHITE))"
      have b: "board (performe_move g m)
                = (board g)[destination m := ?p, source m := NONE, ?q := NONE]"
        using pawn True by (simp add: board_performe_move_pawn Let_def)
      have "i \<noteq> ?q" using pi E(5) len unfolding b by auto
      with pi have "ptype ((board g)[destination m := ?p, source m := NONE] ! i) = PAWN"
        unfolding b by simp
      then show ?thesis by (rule step) (use E(3,4) in simp)
    next
      case False
      show ?thesis
      proof (cases "flags m AND PROMOTION \<noteq> 0")
        case True
        have b: "board (performe_move g m)
                = (board g)[destination m := ?p, source m := NONE,
                            destination m := QUEEN OR team_code (team ?p)]"
          using pawn True False by (simp add: board_performe_move_pawn Let_def)
        have "i \<noteq> destination m" using pi D(2) len unfolding b by auto
        with pi have "ptype (board g ! i) = PAWN"
          unfolding b using D(1) len by (auto simp: nth_list_update split: if_splits)
        then show ?thesis using old[OF i] by simp
      next
        case np: False
        have b: "board (performe_move g m) = (board g)[destination m := ?p, source m := NONE]"
          using pawn np False by (simp add: board_performe_move_pawn Let_def)
        from pi show ?thesis unfolding b
        proof (rule step)
          show "1 \<le> destination m div 8 \<and> destination m div 8 \<le> 6"
            using np D(7) D(2) pawn by (auto simp: less_Suc_eq_le)
        qed
      qed
    qed
  next
    case king
    show ?thesis
    proof (cases "\<bar>int (source m mod 8) - int (destination m mod 8)\<bar> > 1")
      case False
      show ?thesis
        using pi unfolding board_performe_move_king_step[OF king False]
        by (rule step) (use king in simp)
    next
      case True
      note C = move_ok_castleD[OF mv king True]
      define r where "r = source m div 8"
      define sc where "sc = source m mod 8"
      have s: "source m = r * 8 + sc" and sc: "sc < 8" by (auto simp: r_def sc_def)
      have r: "r < 8" using D(1) by (simp add: r_def)
      show ?thesis
      proof (cases "destination m mod 8 = 6")
        case six: True
        have d: "destination m = r * 8 + 6"
          using div_mod_8_eq[OF C(2) six] by (simp add: r_def)
        from C(3)[OF six] have sc5: "sc < 5"
          and rk: "board g ! (r * 8 + 7) = ROOK OR team_code (team (board g ! (r * 8 + sc)))"
          by (simp_all add: r_def sc_def)
        have b: "board (performe_move g m)
              = (board g)[r * 8 + 6 := board g ! (r * 8 + sc), r * 8 + sc := NONE,
                          r * 8 + 5 := ROOK OR team_code (team (board g ! (r * 8 + sc))), r * 8 + 7 := NONE]"
          using board_performe_move_castle_right[OF king True six] sc5 r len
          by (simp add: Let_def C(2) r_def[symmetric]) (simp add: s d rk)
        have "i \<noteq> r * 8 + 7" "i \<noteq> r * 8 + 5" using pi r len unfolding b by auto
        with pi have "ptype ((board g)[r * 8 + 6 := board g ! (r * 8 + sc), r * 8 + sc := NONE] ! i) = PAWN"
          unfolding b by simp
        then show ?thesis
          unfolding s[symmetric] d[symmetric] by (rule step) (use king in simp)
      next
        case nsix: False
        define dc where "dc = destination m mod 8"
        have d: "destination m = r * 8 + dc"
          using div_mod_8_eq[OF C(2) refl] by (simp add: r_def dc_def)
        from C(4)[OF nsix] have dc1: "1 \<le> dc" and dcs: "dc + 1 < sc"
          by (simp_all add: sc_def dc_def)
        have b: "board (performe_move g m)
              = (board g)[r * 8 + dc := board g ! (r * 8 + sc), r * 8 + sc := NONE,
                          r * 8 + dc + 1 := board g ! (r * 8), r * 8 := NONE]"
          using board_performe_move_castle_left[OF king True nsix] sc dc1 dcs r len
          by (simp add: Let_def C(2) r_def[symmetric] dc_def[symmetric]) (simp add: s d)
        have n0: "i \<noteq> r * 8" using pi r len unfolding b by auto
        show ?thesis
        proof (cases "i = r * 8 + dc + 1")
          case True
          with pi have "ptype (board g ! (r * 8)) = PAWN"
            unfolding b using r len sc dcs by simp
          then have "1 \<le> (r * 8) div 8 \<and> (r * 8) div 8 \<le> 6" using r by (intro old) simp_all
          moreover have "dc + 1 < 8" using sc dcs by simp
          then have "(r * 8 + (dc + 1)) div 8 = r" by simp
          ultimately show ?thesis using True by (simp add: add.assoc)
        next
          case False
          with pi n0 have "ptype ((board g)[r * 8 + dc := board g ! (r * 8 + sc), r * 8 + sc := NONE] ! i) = PAWN"
            unfolding b by simp
          then show ?thesis
            unfolding s[symmetric] d[symmetric] by (rule step) (use king in simp)
        qed
      qed
    qed
  qed
qed

lemma move_ok_doubleD:
  assumes "move_ok g m" "flags m AND DOUBLE_MOVE \<noteq> 0"
  shows "ptype (board g ! source m) = PAWN" "ptype (board g ! destination m) = NONE"
    "flags m AND EN_PASSANT = 0"
    "team (board g ! source m) = WHITE \<Longrightarrow>
       source m div 8 = 6 \<and> destination m + 16 = source m \<and> board g ! (source m - 8) = NONE"
    "team (board g ! source m) \<noteq> WHITE \<Longrightarrow>
       source m div 8 = 1 \<and> destination m = source m + 16 \<and> board g ! (source m + 8) = NONE"
  using assms by (simp_all add: move_ok_def Let_def)

lemma team_cases: "team p = WHITE \<or> team p = BLACK"
  by (cases "team p") simp_all

lemma history_ok_performe_move:
  assumes ok: "board_ok g" and mv: "move_ok g m"
  shows "history_ok (performe_move g m)"
proof (cases "flags m AND DOUBLE_MOVE \<noteq> 0")
  case False
  then show ?thesis by (simp add: history_ok_def)
next
  case True
  note D = move_okD[OF mv]
  note W = move_ok_doubleD[OF mv True]
  note len = board_okD(1)[OF ok]
  let ?p = "board g ! source m"
  have sp: "source m = source m div 8 * 8 + source m mod 8" by simp
  have c8: "source m mod 8 < 8" by simp
  show ?thesis
  proof (cases "team ?p = WHITE")
    case w: True
    from W(4)[OF w] have s6: "source m div 8 = 6" and ds: "destination m + 16 = source m"
      and e: "board g ! (source m - 8) = NONE" by simp_all
    have d4: "destination m div 8 = 4"
    proof -
      have "destination m = 4 * 8 + source m mod 8" using sp s6 ds by linarith
      then show ?thesis by simp
    qed
    have pr: "flags m AND PROMOTION = 0" using D(7) d4 by auto
    have b: "board (performe_move g m) = (board g)[destination m := ?p, source m := NONE]"
      using W(1,3) pr by (simp add: board_performe_move_pawn Let_def)
    have p: "?p = PAWN" using piece_split[of ?p] W(1) w by (simp add: team_code_def)
    have "destination m + 8 = source m - 8" using ds by simp
    then have "board (performe_move g m) ! (destination m + 8) = NONE"
      unfolding b using e ds by simp
    moreover have "board (performe_move g m) ! destination m = PAWN"
      unfolding b using D(1-3) len p by simp
    ultimately show ?thesis using D(2) d4 True by (simp add: history_ok_def)
  next
    case nw: False
    from W(5)[OF nw] have s1: "source m div 8 = 1" and ds: "destination m = source m + 16"
      and e: "board g ! (source m + 8) = NONE" by simp_all
    have d3: "destination m div 8 = 3"
    proof -
      have "destination m = 3 * 8 + source m mod 8" using sp s1 ds by linarith
      then show ?thesis by simp
    qed
    have pr: "flags m AND PROMOTION = 0" using D(7) d3 by auto
    have b: "board (performe_move g m) = (board g)[destination m := ?p, source m := NONE]"
      using W(1,3) pr by (simp add: board_performe_move_pawn Let_def)
    have "team ?p = BLACK" using nw team_cases[of ?p] by simp
    then have p: "?p = PAWN OR 1" using piece_split[of ?p] W(1) by (simp add: team_code_def)
    have "destination m - 8 = source m + 8" using ds by simp
    then have "board (performe_move g m) ! (destination m - 8) = NONE"
      unfolding b using e ds by (simp add: add.commute)
    moreover have "board (performe_move g m) ! destination m = PAWN OR 1"
      unfolding b using D(1-3) len p by simp
    ultimately show ?thesis using D(2) d3 True by (simp add: history_ok_def)
  qed
qed

lemma position_ok_performe_move:
  assumes "position_ok g" "move_ok g m"
  shows "position_ok (performe_move g m)"
proof -
  from assms have b: "board_ok g" by (simp add: position_ok_def)
  have "board_ok (performe_move g m)"
    unfolding board_ok_def
    using board_okD(1)[OF b] valid_board_performe_move[OF b assms(2)]
      pawn_rows_performe_move[OF b assms(2)]
    by (simp add: list_all_iff)
  then show ?thesis
    using history_ok_performe_move[OF b assms(2)] by (simp add: position_ok_def)
qed

lemma position_ok_init: "position_ok (init_game ai)"
proof -
  have "board_ok (init_game ai)" by code_simp
  moreover have "history_ok (init_game ai)" by (simp add: history_ok_def init_game_def)
  ultimately show ?thesis by (simp add: position_ok_def)
qed

lemma reachable_position_ok: "reachable g \<Longrightarrow> position_ok g"
proof (induction rule: reachable.induct)
  case (reachable_init ai)
  show ?case by (rule position_ok_init)
next
  case (reachable_step g m)
  then show ?case
    using position_ok_performe_move foreach_team_legal_move_ok by blast
qed

section \<open>Evaluating the enumerations\<close>

declare minimax.simps [simp del]

lemma concat_map_if_filter:
  "concat (map (\<lambda>i. if P i then f i else []) xs) = concat (map f (filter P xs))"
  by (induction xs) simp_all

text \<open>The enumeration over a team goes over the squares of the team, in order.\<close>

lemma foreach_team_legal_move_filter:
  "foreach_team_legal_move g tm full_check =
     concat (map (\<lambda>i. foreach_piece_legal_move g i full_check)
       (filter (\<lambda>i. ptype (board g ! i) \<noteq> NONE \<and> team (board g ! i) = tm) [0..<64]))"
  unfolding foreach_team_legal_move_def Let_def by (rule concat_map_if_filter)

subsection \<open>The initial position\<close>

lemma init_turn: "current_turn (init_game ai) = WHITE"
  by (simp add: init_game_def)

lemma init_squares:
  "filter (\<lambda>i. ptype (board (init_game ai) ! i) \<noteq> NONE \<and> team (board (init_game ai) ! i) = WHITE)
     [0..<64]
   = [48, 49, 50, 51, 52, 53, 54, 55, 56, 57, 58, 59, 60, 61, 62, 63]"
  by code_simp

lemma init_candidates_48:
  "candidate_moves (init_game ai) 48 True =
     [\<lparr>source = 48, destination = 40, flags = NO_ACTION\<rparr>,
      \<lparr>source = 48, destination = 32, flags = DOUBLE_MOVE\<rparr>]"
  by code_simp

lemma init_candidates_49:
  "candidate_moves (init_game ai) 49 True =
     [\<lparr>source = 49, destination = 41, flags = NO_ACTION\<rparr>,
      \<lparr>source = 49, destination = 33, flags = DOUBLE_MOVE\<rparr>]"
  by code_simp

lemma init_candidates_50:
  "candidate_moves (init_game ai) 50 True =
     [\<lparr>source = 50, destination = 42, flags = NO_ACTION\<rparr>,
      \<lparr>source = 50, destination = 34, flags = DOUBLE_MOVE\<rparr>]"
  by code_simp

lemma init_candidates_51:
  "candidate_moves (init_game ai) 51 True =
     [\<lparr>source = 51, destination = 43, flags = NO_ACTION\<rparr>,
      \<lparr>source = 51, destination = 35, flags = DOUBLE_MOVE\<rparr>]"
  by code_simp

lemma init_candidates_52:
  "candidate_moves (init_game ai) 52 True =
     [\<lparr>source = 52, destination = 44, flags = NO_ACTION\<rparr>,
      \<lparr>source = 52, destination = 36, flags = DOUBLE_MOVE\<rparr>]"
  by code_simp

lemma init_candidates_53:
  "candidate_moves (init_game ai) 53 True =
     [\<lparr>source = 53, destination = 45, flags = NO_ACTION\<rparr>,
      \<lparr>source = 53, destination = 37, flags = DOUBLE_MOVE\<rparr>]"
  by code_simp

lemma init_candidates_54:
  "candidate_moves (init_game ai) 54 True =
     [\<lparr>source = 54, destination = 46, flags = NO_ACTION\<rparr>,
      \<lparr>source = 54, destination = 38, flags = DOUBLE_MOVE\<rparr>]"
  by code_simp

lemma init_candidates_55:
  "candidate_moves (init_game ai) 55 True =
     [\<lparr>source = 55, destination = 47, flags = NO_ACTION\<rparr>,
      \<lparr>source = 55, destination = 39, flags = DOUBLE_MOVE\<rparr>]"
  by code_simp

lemma init_candidates_56:
  "candidate_moves (init_game ai) 56 True =
     []"
  by code_simp

lemma init_candidates_57:
  "candidate_moves (init_game ai) 57 True =
     [\<lparr>source = 57, destination = 42, flags = NO_ACTION\<rparr>,
      \<lparr>source = 57, destination = 40, flags = NO_ACTION\<rparr>]"
  by code_simp

lemma init_candidates_58:
  "candidate_moves (init_game ai) 58 True =
     []"
  by code_simp

lemma init_candidates_59:
  "candidate_moves (init_game ai) 59 True =
     []"
  by code_simp

lemma init_candidates_60:
  "candidate_moves (init_game ai) 60 True =
     []"
  by code_simp

lemma init_candidates_61:
  "candidate_moves (init_game ai) 61 True =
     []"
  by code_simp

lemma init_candidates_62:
  "candidate_moves (init_game ai) 62 True =
     [\<lparr>source = 62, destination = 47, flags = NO_ACTION\<rparr>,
      \<lparr>source = 62, destination = 45, flags = NO_ACTION\<rparr>]"
  by code_simp

lemma init_candidates_63:
  "candidate_moves (init_game ai) 63 True =
     []"
  by code_simp

lemma init_legal_48_40:
  "fst (check_move_full_legality (init_game ai)
          \<lparr>source = 48, destination = 40, flags = NO_ACTION\<rparr>)"
  by code_simp

lemma init_legal_48_32:
  "fst (check_move_full_legality (init_game ai)
          \<lparr>source = 48, destination = 32, flags = DOUBLE_MOVE\<rparr>)"
  by code_simp

lemma init_legal_49_41:
  "fst (check_move_full_legality (init_game ai)
          \<lparr>source = 49, destination = 41, flags = NO_ACTION\<rparr>)"
  by code_simp

lemma init_legal_49_33:
  "fst (check_move_full_legality (init_game ai)
          \<lparr>source = 49, destination = 33, flags = DOUBLE_MOVE\<rparr>)"
  by code_simp

lemma init_legal_50_42:
  "fst (check_move_full_legality (init_game ai)
          \<lparr>source = 50, destination = 42, flags = NO_ACTION\<rparr>)"
  by code_simp

lemma init_legal_50_34:
  "fst (check_move_full_legality (init_game ai)
          \<lparr>source = 50, destination = 34, flags = DOUBLE_MOVE\<rparr>)"
  by code_simp

lemma init_legal_51_43:
  "fst (check_move_full_legality (init_game ai)
          \<lparr>source = 51, destination = 43, flags = NO_ACTION\<rparr>)"
  by code_simp

lemma init_legal_51_35:
  "fst (check_move_full_legality (init_game ai)
          \<lparr>source = 51, destination = 35, flags = DOUBLE_MOVE\<rparr>)"
  by code_simp

lemma init_legal_52_44:
  "fst (check_move_full_legality (init_game ai)
          \<lparr>source = 52, destination = 44, flags = NO_ACTION\<rparr>)"
  by code_simp

lemma init_legal_52_36:
  "fst (check_move_full_legality (init_game ai)
          \<lparr>source = 52, destination = 36, flags = DOUBLE_MOVE\<rparr>)"
  by code_simp

lemma init_legal_53_45:
  "fst (check_move_full_legality (init_game ai)
          \<lparr>source = 53, destination = 45, flags = NO_ACTION\<rparr>)"
  by code_simp

lemma init_legal_53_37:
  "fst (check_move_full_legality (init_game ai)
          \<lparr>source = 53, destination = 37, flags = DOUBLE_MOVE\<rparr>)"
  by code_simp

lemma init_legal_54_46:
  "fst (check_move_full_legality (init_game ai)
          \<lparr>source = 54, destination = 46, flags = NO_ACTION\<rparr>)"
  by code_simp

lemma init_legal_54_38:
  "fst (check_move_full_legality (init_game ai)
          \<lparr>source = 54, destination = 38, flags = DOUBLE_MOVE\<rparr>)"
  by code_simp

lemma init_legal_55_47:
  "fst (check_move_full_legality (init_game ai)
          \<lparr>source = 55, destination = 47, flags = NO_ACTION\<rparr>)"
  by code_simp

lemma init_legal_55_39:
  "fst (check_move_full_legality (init_game ai)
          \<lparr>source = 55, destination = 39, flags = DOUBLE_MOVE\<rparr>)"
  by code_simp

lemma init_legal_57_42:
  "fst (check_move_full_legality (init_game ai)
          \<lparr>source = 57, destination = 42, flags = NO_ACTION\<rparr>)"
  by code_simp

lemma init_legal_57_40:
  "fst (check_move_full_legality (init_game ai)
          \<lparr>source = 57, destination = 40, flags = NO_ACTION\<rparr>)"
  by code_simp

lemma init_legal_62_47:
  "fst (check_move_full_legality (init_game ai)
          \<lparr>source = 62, destination = 47, flags = NO_ACTION\<rparr>)"
  by code_simp

lemma init_legal_62_45:
  "fst (check_move_full_legality (init_game ai)
          \<lparr>source = 62, destination = 45, flags = NO_ACTION\<rparr>)"
  by code_simp

lemmas init_candidates =
  init_candidates_48 init_candidates_49 init_candidates_50 init_candidates_51
  init_candidates_52 init_candidates_53 init_candidates_54 init_candidates_55
  init_candidates_56 init_candidates_57 init_candidates_58 init_candidates_59
  init_candidates_60 init_candidates_61 init_candidates_62 init_candidates_63

lemmas init_legal =
  init_legal_48_40 init_legal_48_32 init_legal_49_41 init_legal_49_33
  init_legal_50_42 init_legal_50_34 init_legal_51_43 init_legal_51_35
  init_legal_52_44 init_legal_52_36 init_legal_53_45 init_legal_53_37
  init_legal_54_46 init_legal_54_38 init_legal_55_47 init_legal_55_39
  init_legal_57_42 init_legal_57_40 init_legal_62_47 init_legal_62_45

lemma init_legal_moves:
  "foreach_team_legal_move (init_game ai) WHITE True =
     [\<lparr>source = 48, destination = 40, flags = NO_ACTION\<rparr>,
      \<lparr>source = 48, destination = 32, flags = DOUBLE_MOVE\<rparr>,
      \<lparr>source = 49, destination = 41, flags = NO_ACTION\<rparr>,
      \<lparr>source = 49, destination = 33, flags = DOUBLE_MOVE\<rparr>,
      \<lparr>source = 50, destination = 42, flags = NO_ACTION\<rparr>,
      \<lparr>source = 50, destination = 34, flags = DOUBLE_MOVE\<rparr>,
      \<lparr>source = 51, destination = 43, flags = NO_ACTION\<rparr>,
      \<lparr>source = 51, destination = 35, flags = DOUBLE_MOVE\<rparr>,
      \<lparr>source = 52, destination = 44, flags = NO_ACTION\<rparr>,
      \<lparr>source = 52, destination = 36, flags = DOUBLE_MOVE\<rparr>,
      \<lparr>source = 53, destination = 45, flags = NO_ACTION\<rparr>,
      \<lparr>source = 53, destination = 37, flags = DOUBLE_MOVE\<rparr>,
      \<lparr>source = 54, destination = 46, flags = NO_ACTION\<rparr>,
      \<lparr>source = 54, destination = 38, flags = DOUBLE_MOVE\<rparr>,
      \<lparr>source = 55, destination = 47, flags = NO_ACTION\<rparr>,
      \<lparr>source = 55, destination = 39, flags = DOUBLE_MOVE\<rparr>,
      \<lparr>source = 57, destination = 42, flags = NO_ACTION\<rparr>,
      \<lparr>source = 57, destination = 40, flags = NO_ACTION\<rparr>,
      \<lparr>source = 62, destination = 47, flags = NO_ACTION\<rparr>,
      \<lparr>source = 62, destination = 45, flags = NO_ACTION\<rparr>]"
  by (simp add: foreach_team_legal_move_filter init_squares foreach_piece_legal_move_def
      init_candidates init_legal)

subsection \<open>The two kings\<close>

lemma two_kings_turn: "current_turn two_kings = WHITE"
  by (simp add: two_kings_def)

lemma two_kings_squares:
  "filter (\<lambda>i. ptype (board two_kings ! i) \<noteq> NONE \<and> team (board two_kings ! i) = WHITE) [0..<64]
   = [56]"
  by code_simp

lemma two_kings_candidates:
  "candidate_moves two_kings 56 True =
     [\<lparr>source = 56, destination = 48, flags = NO_ACTION\<rparr>,
      \<lparr>source = 56, destination = 49, flags = NO_ACTION\<rparr>,
      \<lparr>source = 56, destination = 57, flags = NO_ACTION\<rparr>]"
  by code_simp

lemma two_kings_legal_48:
  "fst (check_move_full_legality two_kings \<lparr>source = 56, destination = 48, flags = NO_ACTION\<rparr>)"
  by code_simp

lemma two_kings_illegal_49:
  "\<not> fst (check_move_full_legality two_kings \<lparr>source = 56, destination = 49, flags = NO_ACTION\<rparr>)"
  by code_simp

lemma two_kings_legal_57:
  "fst (check_move_full_legality two_kings \<lparr>source = 56, destination = 57, flags = NO_ACTION\<rparr>)"
  by code_simp

lemma two_kings_legal_moves:
  "foreach_team_legal_move two_kings WHITE True =
     [\<lparr>source = 56, destination = 48, flags = NO_ACTION\<rparr>,
      \<lparr>source = 56, destination = 57, flags = NO_ACTION\<rparr>]"
  by (simp add: foreach_team_legal_move_filter two_kings_squares foreach_piece_legal_move_def
      two_kings_candidates two_kings_legal_48 two_kings_illegal_49 two_kings_legal_57)

lemma two_kings_score_48:
  "evaluate_board (performe_move two_kings \<lparr>source = 56, destination = 48, flags = NO_ACTION\<rparr>) = - 2"
  by code_simp

lemma two_kings_score_57:
  "evaluate_board (performe_move two_kings \<lparr>source = 56, destination = 57, flags = NO_ACTION\<rparr>) = - 2"
  by code_simp

subsection \<open>The stalemate and the mate\<close>

lemma stalemate_turn: "current_turn (performe_move before_stalemate stalemate_move) = BLACK"
  by code_simp

lemma stalemate_squares:
  "filter (\<lambda>i. ptype (board (performe_move before_stalemate stalemate_move) ! i) \<noteq> NONE
              \<and> team (board (performe_move before_stalemate stalemate_move) ! i) = BLACK)
     [0..<64] = [0]"
  by code_simp

lemma stalemate_candidates:
  "candidate_moves (performe_move before_stalemate stalemate_move) 0 True =
     [\<lparr>source = 0, destination = 1, flags = NO_ACTION\<rparr>,
      \<lparr>source = 0, destination = 8, flags = NO_ACTION\<rparr>,
      \<lparr>source = 0, destination = 9, flags = NO_ACTION\<rparr>]"
  by code_simp

lemma stalemate_illegal_1:
  "\<not> fst (check_move_full_legality (performe_move before_stalemate stalemate_move)
            \<lparr>source = 0, destination = 1, flags = NO_ACTION\<rparr>)"
  by code_simp

lemma stalemate_illegal_8:
  "\<not> fst (check_move_full_legality (performe_move before_stalemate stalemate_move)
            \<lparr>source = 0, destination = 8, flags = NO_ACTION\<rparr>)"
  by code_simp

lemma stalemate_illegal_9:
  "\<not> fst (check_move_full_legality (performe_move before_stalemate stalemate_move)
            \<lparr>source = 0, destination = 9, flags = NO_ACTION\<rparr>)"
  by code_simp

lemma stalemate_no_moves:
  "foreach_team_legal_move (performe_move before_stalemate stalemate_move) BLACK True = []"
  by (simp add: foreach_team_legal_move_filter stalemate_squares foreach_piece_legal_move_def
      stalemate_candidates stalemate_illegal_1 stalemate_illegal_8 stalemate_illegal_9
      del: One_nat_def)

lemma stalemate_not_attacked:
  "list_all (\<lambda>m. \<not> is_king_capture m)
     (foreach_team_legal_move (performe_move before_stalemate stalemate_move) WHITE False)"
  by code_simp

lemma mate_turn: "current_turn (performe_move before_stalemate mate_move) = BLACK"
  by code_simp

lemma mate_squares:
  "filter (\<lambda>i. ptype (board (performe_move before_stalemate mate_move) ! i) \<noteq> NONE
              \<and> team (board (performe_move before_stalemate mate_move) ! i) = BLACK)
     [0..<64] = [0]"
  by code_simp

lemma mate_candidates:
  "candidate_moves (performe_move before_stalemate mate_move) 0 True =
     [\<lparr>source = 0, destination = 1, flags = NO_ACTION\<rparr>,
      \<lparr>source = 0, destination = 8, flags = NO_ACTION\<rparr>,
      \<lparr>source = 0, destination = 9, flags = 5\<rparr>]"
  by code_simp

lemma mate_illegal_1:
  "\<not> fst (check_move_full_legality (performe_move before_stalemate mate_move)
            \<lparr>source = 0, destination = 1, flags = NO_ACTION\<rparr>)"
  by code_simp

lemma mate_illegal_8:
  "\<not> fst (check_move_full_legality (performe_move before_stalemate mate_move)
            \<lparr>source = 0, destination = 8, flags = NO_ACTION\<rparr>)"
  by code_simp

lemma mate_illegal_9:
  "\<not> fst (check_move_full_legality (performe_move before_stalemate mate_move)
            \<lparr>source = 0, destination = 9, flags = 5\<rparr>)"
  by code_simp

lemma mate_no_moves:
  "foreach_team_legal_move (performe_move before_stalemate mate_move) BLACK True = []"
  by (simp add: foreach_team_legal_move_filter mate_squares foreach_piece_legal_move_def
      mate_candidates mate_illegal_1 mate_illegal_8 mate_illegal_9 del: One_nat_def)

lemma mate_attacked:
  "\<not> list_all (\<lambda>m. \<not> is_king_capture m)
       (foreach_team_legal_move (performe_move before_stalemate mate_move) WHITE False)"
  by code_simp

section \<open>The search\<close>

lemma depth_after_move_eq:
  "depth_after_move m depth = (if flags m = NO_ACTION then depth - 1 else depth)"
  by (simp add: depth_after_move_def)

text \<open>
  With a positive depth, the replies to the move are searched one ply lower; the extra ply
  is taken off for a move without any flag, and for no other move.
\<close>

lemma minimax_reply_depth:
  "0 < depth \<Longrightarrow>
   minimax g m True depth alpha beta =
     max_scan (performe_move g m) (if flags m = NO_ACTION then depth - 1 else depth)
       (foreach_team_legal_move (performe_move g m) (current_turn (performe_move g m)) True)
       INT_MIN alpha beta"
  by (simp add: minimax.simps depth_after_move_eq)

text \<open>
  C2.  The claim: at a depth above 0 the extra decrement of the depth is applied to every
  move that is not a capture, whatever other flags it carries, and to no capture.  The code
  tests \<^verbatim>\<open>!move.flags & MoveFlags::ATTACK\<close>, which is true only for a move without any flag.
  For the double step of the pawn from 52 to 36, which is not a capture, the depth 2 stays
  2: the extra decrement is not applied, and the replies are searched at depth 1 instead of 0.
\<close>

theorem minimax_double_step_keeps_depth:
  "flags \<lparr>source = 52, destination = 36, flags = DOUBLE_MOVE\<rparr> AND ATTACK = 0
   \<and> depth_after_move \<lparr>source = 52, destination = 36, flags = DOUBLE_MOVE\<rparr> 2 = 2
   \<and> minimax (init_game ai) \<lparr>source = 52, destination = 36, flags = DOUBLE_MOVE\<rparr> True 2 alpha beta
     = max_scan (performe_move (init_game ai) \<lparr>source = 52, destination = 36, flags = DOUBLE_MOVE\<rparr>) 2
         (foreach_team_legal_move
            (performe_move (init_game ai) \<lparr>source = 52, destination = 36, flags = DOUBLE_MOVE\<rparr>)
            (current_turn
               (performe_move (init_game ai) \<lparr>source = 52, destination = 36, flags = DOUBLE_MOVE\<rparr>))
            True)
         INT_MIN alpha beta"
  by (simp add: minimax.simps depth_after_move_eq)



text \<open>
  The same score for the mate: black has no reply to the queen's move to 9 and its king is
  attacked; black has no reply to the queen's move to 10 and its king is not attacked.
\<close>

lemma minimax_mate_score:
  "minimax before_stalemate mate_move False 1 INT_MIN INT_MAX = INT_MAX"
  by (simp add: minimax.simps mate_turn mate_no_moves del: performe_move_turn)

text \<open>
  C3.  The claim: among the root moves that reach the best score, the move returned is a
  uniform choice; counting the incumbent, the k-th candidate with the best score replaces
  the selection with probability 1/k.  The code resets \<^verbatim>\<open>equal_moves_considerd\<close> to 0 when a
  move is strictly better, so the next move with the same score takes the remainder of
  \<^verbatim>\<open>rand()\<close> by 1 and always replaces it.  In the position \<open>two_kings\<close> white has two moves,
  both with the score -2 at depth 0; whatever values \<^verbatim>\<open>rand()\<close> returns, the second is chosen.
\<close>

theorem get_best_next_move_second_of_two:
  "foreach_team_legal_move two_kings (current_turn two_kings) True =
     [\<lparr>source = 56, destination = 48, flags = NO_ACTION\<rparr>,
      \<lparr>source = 56, destination = 57, flags = NO_ACTION\<rparr>]
   \<and> minimax two_kings \<lparr>source = 56, destination = 48, flags = NO_ACTION\<rparr> False 0 INT_MIN INT_MAX = - 2
   \<and> minimax two_kings \<lparr>source = 56, destination = 57, flags = NO_ACTION\<rparr> False 0 INT_MIN INT_MAX = - 2
   \<and> get_best_next_move rnd two_kings 0 = \<lparr>source = 56, destination = 57, flags = NO_ACTION\<rparr>"
  by (simp add: get_best_next_move_def best_move_callback_def two_kings_legal_moves
      two_kings_turn minimax.simps two_kings_score_48 two_kings_score_57 is_better_predicate_def)

section \<open>The moves of the initial position\<close>

text \<open>
  C9.  From the initial position produced by \<^verbatim>\<open>init_game\<close>, with white to move, the
  full-check enumeration over the pieces of white yields exactly 20 moves.
\<close>

theorem init_game_twenty_moves:
  "current_turn (init_game ai) = WHITE
   \<and> length (foreach_team_legal_move (init_game ai) (current_turn (init_game ai)) True) = 20"
  by (simp add: init_turn init_legal_moves)

section \<open>Applying and undoing the moves of a game\<close>


section \<open>Apply and undo\<close>

lemma undo_moves_Suc_right:
  "undo_moves (Suc n) g =
     (case undo_moves n g of None \<Rightarrow> None | Some g' \<Rightarrow> undo_last_move g')"
proof (induction n arbitrary: g)
  case 0
  show ?case by (simp split: option.splits)
next
  case (Suc n)
  have "undo_moves (Suc (Suc n)) g =
          (case undo_last_move g of None \<Rightarrow> None | Some g1 \<Rightarrow> undo_moves (Suc n) g1)"
    by simp
  also have "\<dots> = (case undo_last_move g of None \<Rightarrow> None
                     | Some g1 \<Rightarrow> (case undo_moves n g1 of None \<Rightarrow> None
                                   | Some g' \<Rightarrow> undo_last_move g'))"
    by (simp only: Suc.IH)
  also have "\<dots> = (case undo_moves (Suc n) g of None \<Rightarrow> None | Some g' \<Rightarrow> undo_last_move g')"
    by (simp split: option.splits)
  finally show ?case .
qed

lemma reachable_performe_moves:
  "reachable g \<Longrightarrow> legal_line g ms \<Longrightarrow> reachable (performe_moves g ms)"
  by (induction ms arbitrary: g) (simp_all add: reachable_step)

lemma foreach_team_legal_moveI:
  assumes "pos < 64" "ptype (board g ! pos) \<noteq> NONE" "team (board g ! pos) = tm"
    "m \<in> set (candidate_moves g pos full_check)"
    "full_check \<Longrightarrow> fst (check_move_full_legality g m)"
  shows "m \<in> set (foreach_team_legal_move g tm full_check)"
  using assms unfolding foreach_team_legal_move_def foreach_piece_legal_move_def Let_def
  by (auto intro!: bexI[of _ pos])

text \<open>
  C1.  For every position \<open>g\<close> of a game and every line of moves from it, each yielded by
  the full-check enumeration for the side to move where it is applied (and the history
  having room for it), undoing as many moves as were applied gives \<open>g\<close> back: the board,
  the castling rights, the side to move and the history are those of \<open>g\<close>.  A line of one
  move is \<^verbatim>\<open>performe_move\<close> followed at once by \<^verbatim>\<open>undo_last_move\<close>.
\<close>

theorem apply_undo_round_trip:
  "reachable g \<Longrightarrow> legal_line g ms \<Longrightarrow>
   undo_moves (length ms) (performe_moves g ms) = Some g"
proof (induction ms arbitrary: g)
  case Nil
  show ?case by simp
next
  case (Cons m ms)
  from Cons.prems have lm: "m \<in> set (foreach_team_legal_move g (current_turn g) True)"
    and c: "cursor g < 512" and rest: "legal_line (performe_move g m) ms" by simp_all
  have r1: "reachable (performe_move g m)" using Cons.prems(1) c lm by (rule reachable_step)
  have ok: "position_ok g" using Cons.prems(1) by (rule reachable_position_ok)
  then have "undo_last_move (performe_move g m) = Some g"
    using foreach_team_legal_move_ok[OF ok lm] by (intro round_trip) (simp add: position_ok_def)
  moreover have "undo_moves (length ms) (performe_moves (performe_move g m) ms)
                   = Some (performe_move g m)"
    using r1 rest by (rule Cons.IH)
  ultimately show ?case by (simp add: undo_moves_Suc_right del: undo_moves.simps)
qed


lemma opening_first:
  "\<lparr>source = 52, destination = 36, flags = DOUBLE_MOVE\<rparr>
     \<in> set (foreach_team_legal_move (init_game False) WHITE True)"
proof (rule foreach_team_legal_moveI[where pos = 52])
  show "ptype (board (init_game False) ! 52) \<noteq> NONE" by code_simp
  show "team (board (init_game False) ! 52) = WHITE" by code_simp
  show "\<lparr>source = 52, destination = 36, flags = DOUBLE_MOVE\<rparr>
          \<in> set (candidate_moves (init_game False) 52 True)" by code_simp
  show "fst (check_move_full_legality (init_game False)
          \<lparr>source = 52, destination = 36, flags = DOUBLE_MOVE\<rparr>)" by code_simp
qed simp

lemma opening_second:
  "\<lparr>source = 11, destination = 27, flags = DOUBLE_MOVE\<rparr>
     \<in> set (foreach_team_legal_move
          (performe_move (init_game False) \<lparr>source = 52, destination = 36, flags = DOUBLE_MOVE\<rparr>)
          BLACK True)"
proof (rule foreach_team_legal_moveI[where pos = 11])
  let ?g = "performe_move (init_game False) \<lparr>source = 52, destination = 36, flags = DOUBLE_MOVE\<rparr>"
  show "ptype (board ?g ! 11) \<noteq> NONE" by code_simp
  show "team (board ?g ! 11) = BLACK" by code_simp
  show "\<lparr>source = 11, destination = 27, flags = DOUBLE_MOVE\<rparr>
          \<in> set (candidate_moves ?g 11 True)" by code_simp
  show "fst (check_move_full_legality ?g \<lparr>source = 11, destination = 27, flags = DOUBLE_MOVE\<rparr>)"
    by code_simp
qed simp

lemma opening_third:
  "\<lparr>source = 36, destination = 27, flags = 65\<rparr>
     \<in> set (foreach_team_legal_move
          (performe_move
            (performe_move (init_game False) \<lparr>source = 52, destination = 36, flags = DOUBLE_MOVE\<rparr>)
            \<lparr>source = 11, destination = 27, flags = DOUBLE_MOVE\<rparr>)
          WHITE True)"
proof (rule foreach_team_legal_moveI[where pos = 36])
  let ?g = "performe_move
            (performe_move (init_game False) \<lparr>source = 52, destination = 36, flags = DOUBLE_MOVE\<rparr>)
            \<lparr>source = 11, destination = 27, flags = DOUBLE_MOVE\<rparr>"
  show "ptype (board ?g ! 36) \<noteq> NONE" by code_simp
  show "team (board ?g ! 36) = WHITE" by code_simp
  show "\<lparr>source = 36, destination = 27, flags = 65\<rparr> \<in> set (candidate_moves ?g 36 True)"
    by code_simp
  show "fst (check_move_full_legality ?g \<lparr>source = 36, destination = 27, flags = 65\<rparr>)"
    by code_simp
qed simp

lemma opening_line_legal: "legal_line (init_game False) opening_line"
  using opening_first opening_second opening_third
  by (simp add: opening_line_def cursor_def init_game_def flip_turn_def)

theorem apply_undo_round_trip_witness:
  "length opening_line = 3
   \<and> undo_moves (length opening_line) (performe_moves (init_game False) opening_line)
       = Some (init_game False)"
  using apply_undo_round_trip [of "init_game False" opening_line]
  by (simp add: reachable_init opening_line_legal) (simp add: opening_line_def)

section \<open>The castling rights\<close>


lemma can_castle_after_clear:
  "can_castle_right (set_castle_right False w g) w' = (w \<noteq> w' \<and> can_castle_right g w')"
  "can_castle_right (set_castle_left v w g) w' = can_castle_right g w'"
  "can_castle_left (set_castle_left False w g) w' = (w \<noteq> w' \<and> can_castle_left g w')"
  "can_castle_left (set_castle_right v w g) w' = can_castle_left g w'"
  by (cases w; cases w'; cases v;
      simp add: can_castle_right_def can_castle_left_def set_castle_right_def set_castle_left_def
        castle_bits bit_simps)+

lemma plain_move_first_flag:
  assumes "board_ok g" "plain_move g p base m" "base_flags base"
  shows "flags m AND FIRST_MOVE = base AND FIRST_MOVE"
proof -
  from assms(2) have d: "destination m < 64" by (simp add: plain_move_def)
  have vt: "valid_piece (board g ! destination m)" using assms(1) d by (rule board_okD(2))
  from assms(2) consider "flags m = base"
    | "ptype (board g ! destination m) \<noteq> NONE"
      "flags m = base OR ATTACK OR ucast (ptype (board g ! destination m))"
    by (auto simp: plain_move_def Let_def)
  then show ?thesis
  proof cases
    case 1 then show ?thesis by simp
  next
    case 2
    show ?thesis
      unfolding 2(2) by (rule capture_flag_bits(6)[OF assms(3) valid_ptype[OF vt 2(1)]])
  qed
qed

lemma rook_first_move_flag_first:
  "(rook_first_move_flag g pos AND FIRST_MOVE \<noteq> 0) =
     (pos mod 8 = 7 \<and> can_castle_right g (team (board g ! pos) = WHITE)
      \<or> pos mod 8 = 0 \<and> can_castle_left g (team (board g ! pos) = WHITE))"
  by (auto simp add: rook_first_move_flag_def Let_def split: if_splits)

lemma pawn_moves_source: "m \<in> set (pawn_moves g pos) \<Longrightarrow> source m = pos"
  by (drule pawn_moves_cases) (elim disjE conjE exE, simp_all)

lemma castle_moves_source: "m \<in> set (castle_moves g pos) \<Longrightarrow> source m = pos"
  unfolding castle_moves_def Let_def set_append Un_iff
  by (elim disjE) (auto split: if_splits)

lemma candidate_moves_source:
  assumes "m \<in> set (candidate_moves g pos full_check)"
  shows "source m = pos"
proof -
  from assms consider
      "m \<in> set (pawn_moves g pos)" | "m \<in> set (king_steps g pos)"
    | "m \<in> set (castle_moves g pos)" | "m \<in> set (queen_moves g pos)"
    | "m \<in> set (bishop_moves g pos)" | "m \<in> set (knight_moves g pos)"
    | "m \<in> set (rook_moves g pos)"
    unfolding candidate_moves_def pseudo_piece_moves_def Let_def
    by (auto split: if_splits)
  then show ?thesis
  proof cases
    case 1 then show ?thesis by (rule pawn_moves_source)
  next
    case 2 then show ?thesis by (rule king_steps_plain(1))
  next
    case 3 then show ?thesis by (rule castle_moves_source)
  next
    case 4 then show ?thesis by (rule conjunct1[OF queen_moves_plain])
  next
    case 5 then show ?thesis by (rule conjunct1[OF bishop_moves_plain])
  next
    case 6 then show ?thesis by (rule conjunct1[OF knight_moves_plain])
  next
    case 7 then show ?thesis by (rule conjunct1[OF rook_moves_plain])
  qed
qed

text \<open>
  What the first-move flag of a generated move stands for: a king that holds a castling
  right, or a rook on column 7 whose team holds the right-side right, or on column 0 whose
  team holds the left-side right.
\<close>

lemma first_move_flag_meaning:
  assumes ok: "board_ok g" and pos: "pos < 64" and m: "m \<in> set (candidate_moves g pos full_check)"
  shows "source m = pos"
    "ptype (board g ! pos) = KING \<Longrightarrow>
       (flags m AND FIRST_MOVE \<noteq> 0)
         = (can_castle_right g (team (board g ! pos) = WHITE)
            \<or> can_castle_left g (team (board g ! pos) = WHITE))"
    "ptype (board g ! pos) = ROOK \<Longrightarrow>
       (flags m AND FIRST_MOVE \<noteq> 0)
         = (pos mod 8 = 7 \<and> can_castle_right g (team (board g ! pos) = WHITE)
            \<or> pos mod 8 = 0 \<and> can_castle_left g (team (board g ! pos) = WHITE))"
proof -
  let ?w = "team (board g ! pos) = WHITE"
  show "source m = pos" using m by (rule candidate_moves_source)
  show "(flags m AND FIRST_MOVE \<noteq> 0) = (can_castle_right g ?w \<or> can_castle_left g ?w)"
    if kg: "ptype (board g ! pos) = KING"
  proof -
    from m kg consider "m \<in> set (king_steps g pos)" | "m \<in> set (castle_moves g pos)"
      unfolding candidate_moves_def pseudo_piece_moves_def Let_def by (auto split: if_splits)
    then show ?thesis
    proof cases
      case 1
      from plain_move_first_flag[OF ok king_steps_plain(2)[OF 1] first_move_flags_base]
      show ?thesis by (simp add: first_move_flags_bits)
    next
      case 2
      then have "flags m = first_move_flags g ?w"
        unfolding castle_moves_def Let_def by (auto split: if_splits)
      then show ?thesis by (simp add: first_move_flags_bits)
    qed
  qed
  show "(flags m AND FIRST_MOVE \<noteq> 0) =
          (pos mod 8 = 7 \<and> can_castle_right g ?w \<or> pos mod 8 = 0 \<and> can_castle_left g ?w)"
    if rk: "ptype (board g ! pos) = ROOK"
  proof -
    from m rk have "m \<in> set (rook_moves g pos)"
      unfolding candidate_moves_def pseudo_piece_moves_def Let_def by (auto split: if_splits)
    from plain_move_first_flag[OF ok conjunct2[OF rook_moves_plain[OF this]] rook_first_move_flag_base]
    show ?thesis by (simp add: rook_first_move_flag_first)
  qed
qed

lemma game_flags_performe_move_game:
  "game_flags (performe_move g m) =
     game_flags
      (if flags m AND FIRST_MOVE \<noteq> 0 then
        (if ptype (board g ! source m) = KING then
           set_castle_left False (team (board g ! source m) = WHITE)
             (set_castle_right False (team (board g ! source m) = WHITE) g)
         else if ptype (board g ! source m) = ROOK then
           (if source m mod 8 = 7 then set_castle_right False (team (board g ! source m) = WHITE) g
            else set_castle_left False (team (board g ! source m) = WHITE) g)
         else g)
       else g)"
  by (simp add: game_flags_performe_move Let_def)

lemma can_castle_performe_move:
  "can_castle_right (performe_move g m) w' =
     (if flags m AND FIRST_MOVE \<noteq> 0
         \<and> (ptype (board g ! source m) = KING
            \<or> ptype (board g ! source m) = ROOK \<and> source m mod 8 = 7)
      then (team (board g ! source m) = WHITE) \<noteq> w' \<and> can_castle_right g w'
      else can_castle_right g w')"
  "can_castle_left (performe_move g m) w' =
     (if flags m AND FIRST_MOVE \<noteq> 0
         \<and> (ptype (board g ! source m) = KING
            \<or> ptype (board g ! source m) = ROOK \<and> source m mod 8 \<noteq> 7)
      then (team (board g ! source m) = WHITE) \<noteq> w' \<and> can_castle_left g w'
      else can_castle_left g w')"
  unfolding can_castle_cong(1)[OF game_flags_performe_move_game]
    can_castle_cong(2)[OF game_flags_performe_move_game]
  by (simp_all add: can_castle_after_clear)

lemma game_flags_unchanged:
  "\<not> (flags m AND FIRST_MOVE \<noteq> 0
       \<and> (ptype (board g ! source m) = KING \<or> ptype (board g ! source m) = ROOK))
   \<Longrightarrow> game_flags (performe_move g m) = game_flags g"
  by (auto simp: game_flags_performe_move Let_def)


text \<open>
  What \<^verbatim>\<open>performe_move\<close> does to the castling rights, by the flag \<^verbatim>\<open>FIRST_MOVE\<close> of the
  move.  For a move \<open>m\<close> of the generator in a position of a game: if \<open>m\<close> has the flag and
  is a move of a king, the team of the king holds no right afterwards and the rights of the
  other team are as before; if it has the flag and is a move of a rook on column 7, the
  right-side right of its team is cleared and the three others are as before; of a rook on
  another column (which is column 0), the left-side right of its team is cleared and the
  three others are as before; every other move leaves the flags of the game as they are;
  and \<^verbatim>\<open>undo_last_move\<close> after \<^verbatim>\<open>performe_move\<close> gives back the game, its flags included.
  Which moves have the flag is \<open>first_move_flag_meaning\<close>.
\<close>

lemma castling_rights_by_flag:
  assumes "position_ok g" and "pos < 64" and "m \<in> set (candidate_moves g pos full_check)"
  shows
    "(let piece = board g ! pos; w = (team piece = WHITE); g' = performe_move g m in
       (flags m AND FIRST_MOVE \<noteq> 0 \<and> ptype piece = KING \<longrightarrow>
          \<not> can_castle_right g' w \<and> \<not> can_castle_left g' w
          \<and> can_castle_right g' (\<not> w) = can_castle_right g (\<not> w)
          \<and> can_castle_left g' (\<not> w) = can_castle_left g (\<not> w))
       \<and> (flags m AND FIRST_MOVE \<noteq> 0 \<and> ptype piece = ROOK \<and> pos mod 8 = 7 \<longrightarrow>
          \<not> can_castle_right g' w
          \<and> can_castle_left g' w = can_castle_left g w
          \<and> can_castle_right g' (\<not> w) = can_castle_right g (\<not> w)
          \<and> can_castle_left g' (\<not> w) = can_castle_left g (\<not> w))
       \<and> (flags m AND FIRST_MOVE \<noteq> 0 \<and> ptype piece = ROOK \<and> pos mod 8 \<noteq> 7 \<longrightarrow>
          pos mod 8 = 0 \<and> \<not> can_castle_left g' w
          \<and> can_castle_right g' w = can_castle_right g w
          \<and> can_castle_right g' (\<not> w) = can_castle_right g (\<not> w)
          \<and> can_castle_left g' (\<not> w) = can_castle_left g (\<not> w))
       \<and> (\<not> (flags m AND FIRST_MOVE \<noteq> 0 \<and> (ptype piece = KING \<or> ptype piece = ROOK)) \<longrightarrow>
          game_flags g' = game_flags g)
       \<and> undo_last_move g' = Some g)"
proof -
  from assms(1) have ok: "board_ok g" by (simp add: position_ok_def)
  note src = first_move_flag_meaning(1)[OF ok assms(2,3)]
  have rook: "flags m AND FIRST_MOVE \<noteq> 0 \<Longrightarrow> ptype (board g ! pos) = ROOK \<Longrightarrow> pos mod 8 \<noteq> 7
              \<Longrightarrow> pos mod 8 = 0"
    using first_move_flag_meaning(3)[OF ok assms(2,3)] by auto
  have undone: "undo_last_move (performe_move g m) = Some g"
    using ok candidate_moves_ok[OF assms] by (rule round_trip)
  have other: "\<not> (flags m AND FIRST_MOVE \<noteq> 0
                  \<and> (ptype (board g ! pos) = KING \<or> ptype (board g ! pos) = ROOK))
               \<Longrightarrow> game_flags (performe_move g m) = game_flags g"
    using game_flags_unchanged[of m g] by (simp add: src)
  show ?thesis
    unfolding Let_def
    apply (intro conjI impI)
    using rook other undone
    by (simp_all add: can_castle_performe_move src)
qed

lemma castle_left_position_ok: "position_ok castle_left_position"
proof -
  have "board_ok castle_left_position" by code_simp
  moreover have "history_ok castle_left_position"
    by (simp add: history_ok_def castle_left_position_def)
  ultimately show ?thesis by (simp add: position_ok_def)
qed

lemma castle_left_king_step:
  "\<lparr>source = 60, destination = 59, flags = 384\<rparr> \<in> set (candidate_moves castle_left_position 60 True)"
  by code_simp

lemma castle_left_king:
  "board castle_left_position ! 60 = KING"
  by code_simp

lemma castle_left_rights:
  "can_castle_left castle_left_position True" "\<not> can_castle_right castle_left_position True"
  "\<not> can_castle_left castle_left_position False" "\<not> can_castle_right castle_left_position False"
  by code_simp+

lemma castling_rights_king_step:
  "can_castle_left castle_left_position True
   \<and> \<not> can_castle_left
         (performe_move castle_left_position \<lparr>source = 60, destination = 59, flags = 384\<rparr>) True
   \<and> undo_last_move
       (performe_move castle_left_position \<lparr>source = 60, destination = 59, flags = 384\<rparr>)
     = Some castle_left_position"
  using castling_rights_by_flag [of castle_left_position 60
      "\<lparr>source = 60, destination = 59, flags = 384\<rparr>" True]
  by (simp add: castle_left_position_ok castle_left_king_step castle_left_king castle_left_rights
      Let_def ptype_def team_def)

subsection \<open>A rook that has moved before\<close>

lemma rook_tour_legal: "legal_line (init_game False) rook_tour"
proof -
  let ?m1 = "\<lparr>source = 48, destination = 32, flags = DOUBLE_MOVE\<rparr>"
  let ?m2 = "\<lparr>source = 8, destination = 16, flags = NO_ACTION\<rparr>"
  let ?m3 = "\<lparr>source = 56, destination = 40, flags = 896\<rparr>"
  let ?m4 = "\<lparr>source = 16, destination = 24, flags = NO_ACTION\<rparr>"
  let ?m5 = "\<lparr>source = 40, destination = 47, flags = NO_ACTION\<rparr>"
  let ?m6 = "\<lparr>source = 9, destination = 17, flags = NO_ACTION\<rparr>"
  let ?g1 = "performe_move (init_game False) ?m1"
  let ?g2 = "performe_move ?g1 ?m2"
  let ?g3 = "performe_move ?g2 ?m3"
  let ?g4 = "performe_move ?g3 ?m4"
  let ?g5 = "performe_move ?g4 ?m5"
  have 1: "?m1 \<in> set (foreach_team_legal_move (init_game False) WHITE True)"
    by (rule foreach_team_legal_moveI[where pos = 48]; code_simp)
  have 2: "?m2 \<in> set (foreach_team_legal_move ?g1 BLACK True)"
    by (rule foreach_team_legal_moveI[where pos = 8]; code_simp)
  have 3: "?m3 \<in> set (foreach_team_legal_move ?g2 WHITE True)"
    by (rule foreach_team_legal_moveI[where pos = 56]; code_simp)
  have 4: "?m4 \<in> set (foreach_team_legal_move ?g3 BLACK True)"
    by (rule foreach_team_legal_moveI[where pos = 16]; code_simp)
  have 5: "?m5 \<in> set (foreach_team_legal_move ?g4 WHITE True)"
    by (rule foreach_team_legal_moveI[where pos = 40]; code_simp)
  have 6: "?m6 \<in> set (foreach_team_legal_move ?g5 BLACK True)"
    by (rule foreach_team_legal_moveI[where pos = 9]; code_simp)
  show ?thesis
    using 1 2 3 4 5 6
    by (simp add: rook_tour_def cursor_def init_game_def flip_turn_def)
qed

lemma rook_tour_position:
  "performe_moves (init_game False) rook_tour =
     performe_move (performe_move (performe_move (performe_move (performe_move (performe_move
       (init_game False)
       \<lparr>source = 48, destination = 32, flags = DOUBLE_MOVE\<rparr>)
       \<lparr>source = 8, destination = 16, flags = NO_ACTION\<rparr>)
       \<lparr>source = 56, destination = 40, flags = 896\<rparr>)
       \<lparr>source = 16, destination = 24, flags = NO_ACTION\<rparr>)
       \<lparr>source = 40, destination = 47, flags = NO_ACTION\<rparr>)
       \<lparr>source = 9, destination = 17, flags = NO_ACTION\<rparr>"
  by (simp add: rook_tour_def)

lemma rook_tour_turn: "current_turn (performe_moves (init_game False) rook_tour) = WHITE"
  by (simp add: rook_tour_position init_turn)

lemma rook_tour_next:
  "\<lparr>source = 47, destination = 39, flags = FIRST_MOVE OR CASTLE_RIGHT_BEFORE_MOVE\<rparr>
     \<in> set (foreach_team_legal_move (performe_moves (init_game False) rook_tour) WHITE True)"
  unfolding rook_tour_position
  by (rule foreach_team_legal_moveI[where pos = 47]; code_simp)

lemma rook_tour_pieces:
  "board (performe_moves (init_game False) rook_tour) ! 47 = ROOK"
  "board (performe_moves (init_game False) rook_tour) ! 63 = ROOK"
  "board (performe_moves (init_game False) rook_tour) ! 60 = KING"
  "board (performe_moves (init_game False) rook_tour) ! 56 = NONE"
  unfolding rook_tour_position by code_simp+

lemma rook_tour_rights:
  "can_castle_right (performe_moves (init_game False) rook_tour) True"
  "\<not> can_castle_right
       (performe_move (performe_moves (init_game False) rook_tour)
          \<lparr>source = 47, destination = 39, flags = FIRST_MOVE OR CASTLE_RIGHT_BEFORE_MOVE\<rparr>)
       True"
  unfolding rook_tour_position by code_simp+

lemma rook_tour_untouched:
  "list_all (\<lambda>x. source x \<noteq> 60 \<and> source x \<noteq> 63 \<and> destination x \<noteq> 60 \<and> destination x \<noteq> 63)
     rook_tour"
  by (simp add: rook_tour_def)

text \<open>
  C4.  The claim: a king's first move clears both rights of its team, a rook's first move
  clears the right of its side, and no other move clears a right.  The code gives the flag
  \<^verbatim>\<open>FIRST_MOVE\<close> to every move of a rook that stands on column 7 while the right-side
  right of its team is held (on column 0 while the left-side right is held), whatever the
  row and whatever the rook did before, and \<^verbatim>\<open>performe_move\<close> clears the right of the column
  for a move with the flag.  In the game \<open>rook_tour\<close> the white rook of the left corner
  goes from 56 to 40 and from 40 to 47; the white king on 60 and the white rook on 63 are
  never moved or taken, and white holds the right-side right.  The enumeration then yields
  the move of that rook from 47 to 39 with the flag \<^verbatim>\<open>FIRST_MOVE\<close>, its third move, and
  applying it clears the right-side right of white.
\<close>

theorem rook_later_move_clears_right:
  "legal_line (init_game False) rook_tour
   \<and> list_all (\<lambda>x. source x \<noteq> 60 \<and> source x \<noteq> 63 \<and> destination x \<noteq> 60 \<and> destination x \<noteq> 63)
         rook_tour
   \<and> (let g = performe_moves (init_game False) rook_tour;
          m = \<lparr>source = 47, destination = 39, flags = FIRST_MOVE OR CASTLE_RIGHT_BEFORE_MOVE\<rparr>
      in m \<in> set (foreach_team_legal_move g (current_turn g) True)
         \<and> board g ! 56 = NONE \<and> board g ! 47 = ROOK
         \<and> board g ! 60 = KING \<and> board g ! 63 = ROOK
         \<and> can_castle_right g True
         \<and> \<not> can_castle_right (performe_move g m) True)"
  unfolding Let_def
  using rook_tour_legal rook_tour_untouched rook_tour_next rook_tour_pieces rook_tour_rights
  by (simp only: rook_tour_turn simp_thms)

section \<open>The legality test\<close>



lemma check_move_full_legality_snd:
  "snd (check_move_full_legality g m) =
     (case undo_last_move (performe_move g m) of Some g2 \<Rightarrow> g2 | None \<Rightarrow> performe_move g m)"
  by (simp add: check_move_full_legality_def Let_def)

text \<open>
  C6.  For every move that \<^verbatim>\<open>foreach_piece_legal_move\<close> hands to the legality test in a
  position of a game (any move of \<open>candidate_moves\<close>, whether the test accepts it or not),
  \<^verbatim>\<open>check_move_full_legality\<close> leaves the game as it was: board, castling rights, side to
  move and history.  Every position of a game satisfies \<open>position_ok\<close>
  (\<open>reachable_position_ok\<close>).
\<close>

theorem check_move_full_legality_frame:
  "position_ok g \<Longrightarrow> cursor g < 512 \<Longrightarrow> pos < 64
   \<Longrightarrow> m \<in> set (candidate_moves g pos full_check)
   \<Longrightarrow> snd (check_move_full_legality g m) = g"
proof -
  assume ok: "position_ok g" and pos: "pos < 64" and m: "m \<in> set (candidate_moves g pos full_check)"
  have "undo_last_move (performe_move g m) = Some g"
    using ok candidate_moves_ok[OF ok pos m] by (intro round_trip) (simp add: position_ok_def)
  then show ?thesis by (simp add: check_move_full_legality_snd)
qed

lemma two_kings_ok: "position_ok two_kings"
proof -
  have "board_ok two_kings" by code_simp
  moreover have "history_ok two_kings" by (simp add: history_ok_def two_kings_def)
  ultimately show ?thesis by (simp add: position_ok_def)
qed

theorem check_move_full_legality_frame_witness:
  "\<not> fst (check_move_full_legality two_kings \<lparr>source = 56, destination = 49, flags = NO_ACTION\<rparr>)
   \<and> snd (check_move_full_legality two_kings \<lparr>source = 56, destination = 49, flags = NO_ACTION\<rparr>)
       = two_kings"
  using check_move_full_legality_frame [of two_kings 56
      "\<lparr>source = 56, destination = 49, flags = NO_ACTION\<rparr>" True]
  by (simp add: two_kings_ok two_kings_candidates two_kings_illegal_49)
     (simp add: cursor_def two_kings_def)

section \<open>The status of a game\<close>

lemma visit_first:
  "snd (visit (\<lambda>m has_moves. (BREAK, True)) ms False) = (ms \<noteq> [])"
  by (cases ms) simp_all

lemma visit_search:
  "snd (visit (\<lambda>m found. if P m then (BREAK, True) else (CONTINUE, found)) ms False)
   = (\<exists>m\<in>set ms. P m)"
  by (induction ms) simp_all

lemma other_is_flip_turn: "(if t = WHITE then BLACK else WHITE) = flip_turn t"
  by (cases t) (simp_all add: flip_turn_def)

lemma get_game_status_lists:
  "get_game_status g =
     (if foreach_team_legal_move g (current_turn g) True \<noteq> [] then CONTINUE_GAME
      else if \<exists>m\<in>set (foreach_team_legal_move g (flip_turn (current_turn g)) False).
                is_king_capture m
      then WIN else DRAW)"
  unfolding get_game_status_def Let_def visit_first visit_search other_is_flip_turn
  by simp






lemma get_game_status_stalemate:
  "get_game_status (performe_move before_stalemate stalemate_move) = DRAW"
  using stalemate_not_attacked
  by (simp add: get_game_status_lists stalemate_turn stalemate_no_moves flip_turn_def
      list_all_iff del: performe_move_turn)

lemma get_game_status_init: "get_game_status (init_game ai) = CONTINUE_GAME"
  by (simp add: get_game_status_lists init_turn init_legal_moves)

section \<open>The en-passant capture\<close>










section \<open>Castling\<close>
















end
